theory Spec2Isabelle
  imports Main "HOL-Library.Word"
begin

unbundle bit_operations_syntax

section \<open>Paths: the functions of path/filepath the package calls (Unix)\<close>

text \<open>
  The package calls \<^verbatim>\<open>filepath.Clean\<close> and \<^verbatim>\<open>filepath.Join\<close> of the Go standard
  library. Their documented rules are modelled here on Unix paths (separator \<open>/\<close>, no
  volume names): \<open>Clean\<close> replaces runs of separators by one, drops every \<open>.\<close>
  element, cancels an inner \<open>..\<close> with the element before it, drops a \<open>..\<close> that
  begins a rooted path, and returns \<open>.\<close> where the result would be empty.
\<close>

definition sep :: char where
  "sep = CHR ''/''"

fun split_sep :: "string \<Rightarrow> string list" where
  "split_sep [] = [[]]"
| "split_sep (c # cs) =
     (if c = sep then [] # split_sep cs
      else (case split_sep cs of [] \<Rightarrow> [[c]] | x # xs \<Rightarrow> (c # x) # xs))"

fun join_sep :: "string list \<Rightarrow> string" where
  "join_sep [] = []"
| "join_sep [x] = x"
| "join_sep (x # y # ys) = x @ sep # join_sep (y # ys)"

definition elems :: "string \<Rightarrow> string list" where
  "elems p = filter (\<lambda>s. s \<noteq> [] \<and> s \<noteq> ''.'') (split_sep p)"

definition rooted :: "string \<Rightarrow> bool" where
  "rooted p = (p \<noteq> [] \<and> hd p = sep)"

text \<open>
  The loop of \<open>Clean\<close> over the elements: \<open>out\<close> is what has been written so far.
  A \<open>..\<close> removes the last real element of \<open>out\<close>; where there is none it is kept on
  a path that is not rooted and dropped on a rooted one.
\<close>

fun collapse :: "bool \<Rightarrow> string list \<Rightarrow> string list \<Rightarrow> string list" where
  "collapse r out [] = out"
| "collapse r out (x # xs) =
     (if x = ''..'' then
        (if out \<noteq> [] \<and> last out \<noteq> ''..'' then collapse r (butlast out) xs
         else if r then collapse r out xs
         else collapse r (out @ [x]) xs)
      else collapse r (out @ [x]) xs)"

definition Clean :: "string \<Rightarrow> string" where
  "Clean p =
     (if p = [] then ''.''
      else
        (let out = (if rooted p then [sep] else []) @ join_sep (collapse (rooted p) [] (elems p))
         in if out = [] then ''.'' else out))"

text \<open>
  \<^verbatim>\<open>filepath.Join\<close>: leading empty elements are ignored, the rest is joined with the
  separator and cleaned; with no element, or only empty ones, the result is empty.
\<close>

definition filepath_Join :: "string list \<Rightarrow> string" where
  "filepath_Join elem =
     (case dropWhile (\<lambda>e. e = []) elem of
        [] \<Rightarrow> []
      | es \<Rightarrow> Clean (join_sep es))"

section \<open>The operating system the package runs on\<close>

text \<open>
  The package is a wrapper around \<^verbatim>\<open>os.Stat\<close>, \<^verbatim>\<open>os.OpenFile\<close>, \<^verbatim>\<open>os.Mkdir\<close> and
  \<^verbatim>\<open>os.RemoveAll\<close>. The state they act on: a tree of files and directories, addressed by
  the list of the elements of the absolute path (no symbolic links), the table of the
  \<^verbatim>\<open>*os.File\<close> objects handed out so far, the umask and working directory of the
  process, and what has been printed on standard output.

  Stored permissions are the nine permission bits, after the umask. Access control is not
  modelled: an open that the flags and the kind of file allow succeeds. Removal of a tree
  is one step. A file that is removed while open is gone for its open handles too.
\<close>

type_synonym key = "string list"
type_synonym FileMode = "32 word"

datatype node = File FileMode string | Directory FileMode

datatype oflag = O_RDONLY | O_WRONLY | O_RDWR | O_APPEND | O_CREATE | O_EXCL | O_SYNC | O_TRUNC

datatype cause = ENOENT | EEXIST | ENOTDIR | EISDIR | EINVAL | EBADF | ErrClosed

datatype error = PathError string string cause | ErrorString string

record ofile =
  of_key :: key
  of_name :: string
  of_read :: bool
  of_write :: bool
  of_append :: bool
  of_pos :: nat
  of_closed :: bool

record os_state =
  files :: "key \<Rightarrow> node option"
  handles :: "nat \<Rightarrow> ofile option"
  next_handle :: nat
  umask :: FileMode
  cwd :: key
  stdout :: "string list"

definition ModePerm :: FileMode where
  "ModePerm = 511"

definition ModeDir :: FileMode where
  "ModeDir = push_bit 31 1"

text \<open>\<open>ModePerm\<close> is octal 777. The permission bits a newly created file or directory gets:\<close>

definition created_perm :: "os_state \<Rightarrow> FileMode \<Rightarrow> FileMode" where
  "created_perm w pm = (pm AND ModePerm) AND NOT (umask w)"

definition resolve :: "os_state \<Rightarrow> string \<Rightarrow> key" where
  "resolve w name = collapse True [] ((if rooted name then [] else cwd w) @ elems name)"

text \<open>The proper ancestors of a key, the root first.\<close>

fun ancestors :: "key \<Rightarrow> key list" where
  "ancestors [] = []"
| "ancestors (x # xs) = [] # map ((#) x) (ancestors xs)"

definition is_file :: "node option \<Rightarrow> bool" where
  "is_file n = (case n of Some (File _ _) \<Rightarrow> True | _ \<Rightarrow> False)"

text \<open>Why a lookup of an absent key fails: an ancestor is a regular file, or nothing is there.\<close>

definition missing :: "os_state \<Rightarrow> key \<Rightarrow> cause" where
  "missing w k = (if list_ex (\<lambda>a. is_file (files w a)) (ancestors k) then ENOTDIR else ENOENT)"

text \<open>\<^verbatim>\<open>err.Error()\<close>.\<close>

fun cause_string :: "cause \<Rightarrow> string" where
  "cause_string ENOENT = ''no such file or directory''"
| "cause_string EEXIST = ''file exists''"
| "cause_string ENOTDIR = ''not a directory''"
| "cause_string EISDIR = ''is a directory''"
| "cause_string EINVAL = ''invalid argument''"
| "cause_string EBADF = ''bad file descriptor''"
| "cause_string ErrClosed = ''file already closed''"

fun Error :: "error \<Rightarrow> string" where
  "Error (PathError op p e) = op @ '' '' @ p @ '': '' @ cause_string e"
| "Error (ErrorString s) = s"

text \<open>\<^verbatim>\<open>errors.Is(err, os.ErrNotExist)\<close> and \<^verbatim>\<open>errors.Is(err, os.ErrExist)\<close>.\<close>

fun is_ErrNotExist :: "error \<Rightarrow> bool" where
  "is_ErrNotExist (PathError _ _ e) = (e = ENOENT)"
| "is_ErrNotExist (ErrorString _) = False"

fun is_ErrExist :: "error \<Rightarrow> bool" where
  "is_ErrExist (PathError _ _ e) = (e = EEXIST)"
| "is_ErrExist (ErrorString _) = False"

definition os_Stat :: "string \<Rightarrow> os_state \<Rightarrow> error + node" where
  "os_Stat name w =
     (if name = [] then Inl (PathError ''stat'' name ENOENT)
      else case files w (resolve w name) of
             Some n \<Rightarrow> Inr n
           | None \<Rightarrow> Inl (PathError ''stat'' name (missing w (resolve w name))))"

definition os_Mkdir :: "string \<Rightarrow> FileMode \<Rightarrow> os_state \<Rightarrow> error option \<times> os_state" where
  "os_Mkdir name pm w =
     (if name = [] then (Some (PathError ''mkdir'' name ENOENT), w)
      else
        (let k = resolve w name in
         case files w k of
           Some _ \<Rightarrow> (Some (PathError ''mkdir'' name EEXIST), w)
         | None \<Rightarrow>
             (case files w (butlast k) of
                Some (Directory _) \<Rightarrow>
                  (None, w\<lparr>files := (files w)(k \<mapsto> Directory (created_perm w pm))\<rparr>)
              | Some (File _ _) \<Rightarrow> (Some (PathError ''mkdir'' name ENOTDIR), w)
              | None \<Rightarrow> (Some (PathError ''mkdir'' name (missing w k)), w))))"

definition at_or_below :: "key \<Rightarrow> key \<Rightarrow> bool" where
  "at_or_below d k = (take (length d) k = d)"

text \<open>
  \<^verbatim>\<open>os.RemoveAll\<close>: nothing to do for the empty path, \<open>EINVAL\<close> for a path whose last
  element is \<open>.\<close>, otherwise the path and everything below it is removed; a path that does
  not exist is no error.
\<close>

definition endsWithDot :: "string \<Rightarrow> bool" where
  "endsWithDot p = (p = ''.'' \<or> (length p \<ge> 2 \<and> last p = CHR ''.'' \<and> last (butlast p) = sep))"

definition os_RemoveAll :: "string \<Rightarrow> os_state \<Rightarrow> error option \<times> os_state" where
  "os_RemoveAll name w =
     (if name = [] then (None, w)
      else if endsWithDot name then (Some (PathError ''RemoveAll'' name EINVAL), w)
      else (None, w\<lparr>files := (\<lambda>k. if at_or_below (resolve w name) k then None else files w k)\<rparr>))"

text \<open>A new \<^verbatim>\<open>*os.File\<close>.\<close>

definition new_file :: "key \<Rightarrow> string \<Rightarrow> oflag set \<Rightarrow> os_state \<Rightarrow> nat \<times> os_state" where
  "new_file k name flag w =
     (next_handle w,
      w\<lparr>handles := (handles w)(next_handle w \<mapsto>
           \<lparr>of_key = k, of_name = name,
            of_read = (O_RDWR \<in> flag \<or> O_WRONLY \<notin> flag),
            of_write = (O_RDWR \<in> flag \<or> O_WRONLY \<in> flag),
            of_append = (O_APPEND \<in> flag),
            of_pos = 0, of_closed = False\<rparr>),
        next_handle := Suc (next_handle w)\<rparr>)"

definition os_OpenFile :: "string \<Rightarrow> oflag set \<Rightarrow> FileMode \<Rightarrow> os_state \<Rightarrow> (error + nat) \<times> os_state" where
  "os_OpenFile name flag pm w =
     (if name = [] then (Inl (PathError ''open'' name ENOENT), w)
      else
        (let k = resolve w name in
         case files w k of
           Some n \<Rightarrow>
             (if O_CREATE \<in> flag \<and> O_EXCL \<in> flag then (Inl (PathError ''open'' name EEXIST), w)
              else
                (case n of
                   Directory _ \<Rightarrow>
                     (if O_RDWR \<in> flag \<or> O_WRONLY \<in> flag \<or> O_CREATE \<in> flag \<or> O_TRUNC \<in> flag
                      then (Inl (PathError ''open'' name EISDIR), w)
                      else (case new_file k name flag w of (h, w') \<Rightarrow> (Inr h, w')))
                 | File fp content \<Rightarrow>
                     (case new_file k name flag
                             (if O_TRUNC \<in> flag then w\<lparr>files := (files w)(k \<mapsto> File fp [])\<rparr> else w) of
                        (h, w') \<Rightarrow> (Inr h, w'))))
         | None \<Rightarrow>
             (if O_CREATE \<in> flag then
                (case files w (butlast k) of
                   Some (Directory _) \<Rightarrow>
                     (case new_file k name flag
                             (w\<lparr>files := (files w)(k \<mapsto> File (created_perm w pm) [])\<rparr>) of
                        (h, w') \<Rightarrow> (Inr h, w'))
                 | Some (File _ _) \<Rightarrow> (Inl (PathError ''open'' name ENOTDIR), w)
                 | None \<Rightarrow> (Inl (PathError ''open'' name (missing w k)), w))
              else (Inl (PathError ''open'' name (missing w k)), w))))"

text \<open>\<^verbatim>\<open>(*os.File).Close\<close>: an error for a file that is closed already.\<close>

definition file_Close :: "nat \<Rightarrow> os_state \<Rightarrow> error option \<times> os_state" where
  "file_Close h w =
     (case handles w h of
        None \<Rightarrow> (Some (ErrorString ''invalid argument''), w)
      | Some fl \<Rightarrow>
          (if of_closed fl then (Some (PathError ''close'' (of_name fl) ErrClosed), w)
           else (None, w\<lparr>handles := (handles w)(h \<mapsto> fl\<lparr>of_closed := True\<rparr>)\<rparr>)))"

text \<open>
  \<^verbatim>\<open>(*os.File).Write\<close>: the bytes go to the position of the handle (the end of the file
  for an appending handle); a gap before that position reads as zero bytes.
\<close>

definition write_at :: "string \<Rightarrow> nat \<Rightarrow> string \<Rightarrow> string" where
  "write_at content p bs =
     (if bs = [] then content
      else take p content @ replicate (p - length content) (CHR 0x00) @ bs
           @ drop (p + length bs) content)"

definition file_Write :: "nat \<Rightarrow> string \<Rightarrow> os_state \<Rightarrow> (nat \<times> error option) \<times> os_state" where
  "file_Write h bs w =
     (case handles w h of
        None \<Rightarrow> ((0, Some (ErrorString ''invalid argument'')), w)
      | Some fl \<Rightarrow>
          (if of_closed fl then ((0, Some (PathError ''write'' (of_name fl) ErrClosed)), w)
           else if \<not> of_write fl then ((0, Some (PathError ''write'' (of_name fl) EBADF)), w)
           else
             (case files w (of_key fl) of
                Some (File fp content) \<Rightarrow>
                  (let p = (if of_append fl then length content else of_pos fl) in
                   ((length bs, None),
                    w\<lparr>files := (files w)(of_key fl \<mapsto> File fp (write_at content p bs)),
                      handles := (handles w)(h \<mapsto> fl\<lparr>of_pos := p + length bs\<rparr>)\<rparr>))
              | _ \<Rightarrow> ((0, Some (PathError ''write'' (of_name fl) EBADF)), w))))"

text \<open>\<^verbatim>\<open>io.ReadAll\<close> on a file: everything from the position of the handle to the end.\<close>

definition io_ReadAll :: "nat \<Rightarrow> os_state \<Rightarrow> (string \<times> error option) \<times> os_state" where
  "io_ReadAll h w =
     (case handles w h of
        None \<Rightarrow> (([], Some (ErrorString ''invalid argument'')), w)
      | Some fl \<Rightarrow>
          (if of_closed fl then (([], Some (PathError ''read'' (of_name fl) ErrClosed)), w)
           else if \<not> of_read fl then (([], Some (PathError ''read'' (of_name fl) EBADF)), w)
           else
             (case files w (of_key fl) of
                Some (File fp content) \<Rightarrow>
                  ((drop (of_pos fl) content, None),
                   w\<lparr>handles := (handles w)(h \<mapsto> fl\<lparr>of_pos := max (of_pos fl) (length content)\<rparr>)\<rparr>)
              | Some (Directory _) \<Rightarrow> (([], Some (PathError ''read'' (of_name fl) EISDIR)), w)
              | None \<Rightarrow> (([], Some (PathError ''read'' (of_name fl) EBADF)), w))))"

definition Println :: "string \<Rightarrow> os_state \<Rightarrow> os_state" where
  "Println s w = w\<lparr>stdout := stdout w @ [s]\<rparr>"

section \<open>config.go\<close>

text \<open>
  A default is a callback \<^verbatim>\<open>func(*Config, io.Writer) error\<close> and the permission of the
  file to create. The callback is a function on the state of the operating system; of the
  \<^verbatim>\<open>*Config\<close> it is given the path (a record cannot hold functions over its own type),
  so a callback that changes the \<open>Config\<close> it is registered on is outside this model. The
  writer is the file just opened.
\<close>

type_synonym generator = "string \<Rightarrow> nat \<Rightarrow> os_state \<Rightarrow> error option \<times> os_state"

record fileDefault =
  f :: generator
  perm :: FileMode

record Config =
  defaults :: "string \<Rightarrow> fileDefault option"
  closers :: "nat list"
  path :: string

text \<open>A call returns, or panics with a message.\<close>

datatype 'a outcome = Panics string | Returns 'a

definition quote :: char where
  "quote = CHR 0x27"

definition child :: "Config \<Rightarrow> string \<Rightarrow> string" where
  "child c name = filepath_Join [path c, name]"

definition Stat :: "Config \<Rightarrow> string \<Rightarrow> os_state \<Rightarrow> error + node" where
  "Stat c name w = os_Stat (child c name) w"

definition Exists :: "Config \<Rightarrow> string \<Rightarrow> os_state \<Rightarrow> bool \<times> error option" where
  "Exists c name w =
     (case Stat c name w of
        Inl err \<Rightarrow> (if is_ErrNotExist err then (False, None) else (False, Some err))
      | Inr _ \<Rightarrow> (True, None))"

text \<open>The mode of the directory is \<^verbatim>\<open>os.ModeDir|0o777\<close>; 511 is octal 777.\<close>

definition create :: "Config \<Rightarrow> os_state \<Rightarrow> error option \<times> os_state" where
  "create c w =
     (case Exists c [] w of
        (_, Some err) \<Rightarrow> (Some err, w)
      | (True, None) \<Rightarrow> (None, w)
      | (False, None) \<Rightarrow> os_Mkdir (path c) (ModeDir OR 511) w)"

definition OpenSpecific :: "string \<Rightarrow> os_state \<Rightarrow> (error + Config) outcome \<times> os_state" where
  "OpenSpecific p w =
     (let p' = Clean p in
      if p' = [] then (Panics ''path cannot be empty'', w)
      else
        (let conf = \<lparr>defaults = Map.empty, closers = [], path = p'\<rparr> in
         case create conf w of
           (Some err, w') \<Rightarrow> (Returns (Inl err), w')
         | (None, w') \<Rightarrow> (Returns (Inr conf), w')))"

text \<open>The loop of \<open>Close\<close> over \<open>c.closers\<close>, with the errors collected so far.\<close>

fun close_each :: "nat list \<Rightarrow> error list \<Rightarrow> os_state \<Rightarrow> error list \<times> os_state" where
  "close_each [] errors w = (errors, w)"
| "close_each (closer # rest) errors w =
     (case file_Close closer w of
        (Some err, w') \<Rightarrow> close_each rest (errors @ [err]) w'
      | (None, w') \<Rightarrow> close_each rest errors w')"

definition Close :: "Config \<Rightarrow> os_state \<Rightarrow> error list \<times> os_state" where
  "Close c w = close_each (closers c) [] w"

definition Delete :: "Config \<Rightarrow> os_state \<Rightarrow> error option \<times> os_state" where
  "Delete c w = os_RemoveAll (path c) w"

definition addCloser :: "Config \<Rightarrow> nat \<Rightarrow> Config" where
  "addCloser c closer = c\<lparr>closers := closers c @ [closer]\<rparr>"

definition DeleteFile :: "Config \<Rightarrow> string \<Rightarrow> os_state \<Rightarrow> error option \<times> os_state" where
  "DeleteFile c name w = os_RemoveAll (path c) w"

definition OpenRaw :: "Config \<Rightarrow> string \<Rightarrow> oflag set \<Rightarrow> FileMode \<Rightarrow> os_state \<Rightarrow> (error + nat) \<times> os_state" where
  "OpenRaw c name flag pm w = os_OpenFile (child c name) flag pm w"

text \<open>create.go: \<open>OpenCreate\<close> is needed by \<open>verifyExists\<close>.\<close>

definition OpenCreate :: "Config \<Rightarrow> string \<Rightarrow> FileMode \<Rightarrow> os_state \<Rightarrow> (error + nat) \<times> os_state" where
  "OpenCreate c name pm w = OpenRaw c name {O_RDWR, O_CREATE, O_EXCL} pm w"

definition verifyExists :: "Config \<Rightarrow> string \<Rightarrow> os_state \<Rightarrow> error option \<times> os_state" where
  "verifyExists c name w =
     (case Exists c name w of
        (_, Some err) \<Rightarrow> (Some err, w)
      | (False, None) \<Rightarrow>
          (case defaults c name of
             Some d \<Rightarrow>
               (case OpenCreate c name (perm d) w of
                  (Inl err, w') \<Rightarrow> (Some err, Println (''err: '' @ Error err) w')
                | (Inr wr, w') \<Rightarrow> f d (path c) wr w')
           | None \<Rightarrow> (Some (ErrorString (quote # name @ quote # '' does not exist'')), w))
      | (True, None) \<Rightarrow> (None, w))"

definition verifyNotExists :: "Config \<Rightarrow> string \<Rightarrow> os_state \<Rightarrow> error option" where
  "verifyNotExists c name w =
     (case Exists c name w of
        (_, Some err) \<Rightarrow> Some err
      | (True, None) \<Rightarrow> Some (ErrorString (quote # name @ quote # '' already exists''))
      | (False, None) \<Rightarrow> None)"

definition DefaultFunc :: "Config \<Rightarrow> string \<Rightarrow> FileMode \<Rightarrow> generator \<Rightarrow> Config outcome" where
  "DefaultFunc c name pm g =
     (if defaults c name \<noteq> None then Panics (quote # name @ quote # '' already has a default'')
      else Returns (c\<lparr>defaults := (defaults c)(name \<mapsto> \<lparr>f = g, perm = pm\<rparr>)\<rparr>))"

text \<open>The function literal of \<open>Default\<close>: it writes \<open>data\<close> and returns the error of the write.\<close>

definition write_callback :: "string \<Rightarrow> generator" where
  "write_callback data = (\<lambda>_ wr w. case file_Write wr data w of ((_, err), w') \<Rightarrow> (err, w'))"

definition Default :: "Config \<Rightarrow> string \<Rightarrow> FileMode \<Rightarrow> string \<Rightarrow> Config outcome" where
  "Default c name pm data = DefaultFunc c name pm (write_callback data)"

definition DefaultString :: "Config \<Rightarrow> string \<Rightarrow> FileMode \<Rightarrow> string \<Rightarrow> Config outcome" where
  "DefaultString c name pm str = Default c name pm str"

section \<open>path.go: joinable paths\<close>

text \<open>
  \<^verbatim>\<open>type Path string\<close>, with \<open>string_of\<close> for the conversion \<^verbatim>\<open>string(p)\<close>.
\<close>

datatype Path = Path (string_of: string)

definition Join :: "Path \<Rightarrow> string list \<Rightarrow> Path" where
  "Join p elem = Path (filepath_Join (string_of p # elem))"

text \<open>
  \<open>JoinP\<close> takes the address of the array behind its slice of \<open>Path\<close> values and
  reads it as an array of strings. So the memory the slice lies in is part of the model:
  at an address a string value is stored as its header, the address of its bytes and their
  number; a slice is the address of its array, a length and a capacity, and its elements
  lie 16 bytes apart. Go gives a defined type the representation of its underlying type:
  a \<open>Path\<close> is stored as the string it wraps, with the same size. A nil slice has the
  address 0.
\<close>

type_synonym addr = nat

record memory =
  cells :: "addr \<Rightarrow> addr \<times> nat"
  bytes :: "addr \<Rightarrow> char"

datatype PathSlice = PathSlice addr nat nat
datatype StringSlice = StringSlice addr nat nat
datatype pointer = PathPtr addr | StringPtr addr | UnsafePointer addr

definition sizeof_string :: nat where
  "sizeof_string = 16"

definition sizeof_Path :: nat where
  "sizeof_Path = sizeof_string"

definition load_string :: "memory \<Rightarrow> addr \<Rightarrow> string" where
  "load_string m a = (case cells m a of (p, n) \<Rightarrow> map (\<lambda>i. bytes m (p + i)) [0..<n])"

definition load_Path :: "memory \<Rightarrow> addr \<Rightarrow> Path" where
  "load_Path m a = Path (load_string m a)"

fun paths_of :: "memory \<Rightarrow> PathSlice \<Rightarrow> Path list" where
  "paths_of m (PathSlice b n c) = map (\<lambda>i. load_Path m (b + i * sizeof_Path)) [0..<n]"

fun strings_of :: "memory \<Rightarrow> StringSlice \<Rightarrow> string list" where
  "strings_of m (StringSlice b n c) = map (\<lambda>i. load_string m (b + i * sizeof_string)) [0..<n]"

fun valid_slice :: "PathSlice \<Rightarrow> bool" where
  "valid_slice (PathSlice b n c) = (n \<le> c \<and> (b = 0 \<longrightarrow> c = 0))"

fun len :: "PathSlice \<Rightarrow> nat" where
  "len (PathSlice b n c) = n"

fun unsafe_SliceData :: "PathSlice \<Rightarrow> pointer" where
  "unsafe_SliceData (PathSlice b n c) = PathPtr b"

fun unsafe_Pointer :: "pointer \<Rightarrow> pointer" where
  "unsafe_Pointer (PathPtr a) = UnsafePointer a"
| "unsafe_Pointer (StringPtr a) = UnsafePointer a"
| "unsafe_Pointer (UnsafePointer a) = UnsafePointer a"

fun to_string_pointer :: "pointer \<Rightarrow> pointer" where
  "to_string_pointer (PathPtr a) = StringPtr a"
| "to_string_pointer (StringPtr a) = StringPtr a"
| "to_string_pointer (UnsafePointer a) = StringPtr a"

fun address :: "pointer \<Rightarrow> addr" where
  "address (PathPtr a) = a"
| "address (StringPtr a) = a"
| "address (UnsafePointer a) = a"

definition unsafe_Slice :: "pointer \<Rightarrow> nat \<Rightarrow> StringSlice outcome" where
  "unsafe_Slice sp n =
     (if address sp = 0 then
        (if n = 0 then Returns (StringSlice 0 0 0)
         else Panics ''unsafe.Slice: ptr is nil and len is not zero'')
      else Returns (StringSlice (address sp) n n))"

definition JoinP :: "memory \<Rightarrow> Path \<Rightarrow> PathSlice \<Rightarrow> Path outcome" where
  "JoinP m p elem =
     (let elp = unsafe_SliceData elem;
          sp = to_string_pointer (unsafe_Pointer elp)
      in case unsafe_Slice sp (len elem) of
           Panics msg \<Rightarrow> Panics msg
         | Returns s \<Rightarrow> Returns (Join p (strings_of m s)))"

text \<open>
  The plain conversion to compare it with: convert each element of the slice to its
  string, into a new sequence, and call \<open>Join\<close> on that.
\<close>

definition JoinP_by_conversion :: "memory \<Rightarrow> Path \<Rightarrow> PathSlice \<Rightarrow> Path" where
  "JoinP_by_conversion m p elem = Join p (map string_of (paths_of m elem))"

text \<open>Two paths, \<open>a\<close> and \<open>bc\<close>, in an array at address 64.\<close>

definition two_paths :: memory where
  "two_paths =
     \<lparr>cells = (\<lambda>a. if a = 64 then (200, 1) else if a = 80 then (300, 2) else (0, 0)),
      bytes = (\<lambda>a. if a = 200 then CHR ''a'' else if a = 300 then CHR ''b''
                    else if a = 301 then CHR ''c'' else CHR ''.'')\<rparr>"

section \<open>The codecs\<close>

text \<open>
  The structured accessors hand the open file to an encoder or decoder of
  \<^verbatim>\<open>encoding/json\<close>, \<^verbatim>\<open>encoding/csv\<close>, \<^verbatim>\<open>encoding/xml\<close> or \<^verbatim>\<open>BurntSushi/toml\<close>.
  These libraries are not part of the package, so every structured accessor takes its
  codec as a parameter. An encoder is the bytes it writes on the stream for a value and
  the error it returns; a decoder is the value, or the error, it returns for the bytes of
  the stream. An error of the stream itself is what the codec returns.
\<close>

type_synonym 'v encoder = "'v \<Rightarrow> string \<times> error option"
type_synonym 'v decoder = "string \<Rightarrow> error + 'v"

definition Encode :: "'v encoder \<Rightarrow> nat \<Rightarrow> 'v \<Rightarrow> os_state \<Rightarrow> error option \<times> os_state" where
  "Encode enc wr v w =
     (case enc v of
        (bs, e) \<Rightarrow>
          (case file_Write wr bs w of
             ((_, Some werr), w') \<Rightarrow> (Some werr, w')
           | ((_, None), w') \<Rightarrow> (e, w')))"

definition Decode :: "'v decoder \<Rightarrow> nat \<Rightarrow> os_state \<Rightarrow> (error + 'v) \<times> os_state" where
  "Decode dec r w =
     (case io_ReadAll r w of
        ((_, Some rerr), w') \<Rightarrow> (Inl rerr, w')
      | ((bs, None), w') \<Rightarrow> (dec bs, w'))"

section \<open>read.go\<close>

definition OpenRead :: "Config \<Rightarrow> string \<Rightarrow> os_state \<Rightarrow> (error + nat) \<times> os_state" where
  "OpenRead c name w =
     (case verifyExists c name w of
        (Some err, w') \<Rightarrow> (Inl err, w')
      | (None, w') \<Rightarrow> OpenRaw c name {O_RDONLY} 0 w')"

definition OpenReadAuto :: "Config \<Rightarrow> string \<Rightarrow> os_state \<Rightarrow> ((error + nat) \<times> Config) \<times> os_state" where
  "OpenReadAuto c name w =
     (case OpenRead c name w of
        (Inl err, w') \<Rightarrow> ((Inl err, c), w')
      | (Inr r, w') \<Rightarrow> ((Inr r, addCloser c r), w'))"

definition Read :: "Config \<Rightarrow> string \<Rightarrow> os_state \<Rightarrow> (string \<times> error option) \<times> os_state" where
  "Read c name w =
     (case OpenRead c name w of
        (Inl err, w') \<Rightarrow> (([], Some err), w')
      | (Inr fr, w') \<Rightarrow>
          (case io_ReadAll fr w' of (res, w'') \<Rightarrow> (res, snd (file_Close fr w''))))"

definition ReadString :: "Config \<Rightarrow> string \<Rightarrow> os_state \<Rightarrow> (string \<times> error option) \<times> os_state" where
  "ReadString c name w =
     (case Read c name w of
        ((b, Some err), w') \<Rightarrow> (([], Some err), w')
      | ((b, None), w') \<Rightarrow> ((b, None), w'))"

definition ReadJson :: "'v decoder \<Rightarrow> Config \<Rightarrow> string \<Rightarrow> os_state \<Rightarrow> (error + 'v) \<times> os_state" where
  "ReadJson json c name w =
     (case OpenRead c name w of
        (Inl err, w') \<Rightarrow> (Inl err, w')
      | (Inr r, w') \<Rightarrow>
          (case Decode json r w' of (res, w'') \<Rightarrow> (res, snd (file_Close r w''))))"

definition ReadToml :: "'v decoder \<Rightarrow> Config \<Rightarrow> string \<Rightarrow> os_state \<Rightarrow> (error + 'v) \<times> os_state" where
  "ReadToml toml c name w =
     (case OpenRead c name w of
        (Inl err, w') \<Rightarrow> (Inl err, w')
      | (Inr r, w') \<Rightarrow>
          (case Decode toml r w' of (res, w'') \<Rightarrow> (res, snd (file_Close r w''))))"

definition ReadCsv :: "string list list decoder \<Rightarrow> Config \<Rightarrow> string \<Rightarrow> os_state
    \<Rightarrow> (error + string list list) \<times> os_state" where
  "ReadCsv csv c name w =
     (case OpenRead c name w of
        (Inl err, w') \<Rightarrow> (Inl err, w')
      | (Inr r, w') \<Rightarrow>
          (case Decode csv r w' of (res, w'') \<Rightarrow> (res, snd (file_Close r w''))))"

definition ReadXml :: "'v decoder \<Rightarrow> Config \<Rightarrow> string \<Rightarrow> os_state \<Rightarrow> (error + 'v) \<times> os_state" where
  "ReadXml xml c name w =
     (case OpenRead c name w of
        (Inl err, w') \<Rightarrow> (Inl err, w')
      | (Inr r, w') \<Rightarrow>
          (case Decode xml r w' of (res, w'') \<Rightarrow> (res, snd (file_Close r w''))))"

section \<open>path.go: the write accessors\<close>

definition OpenWrite :: "Config \<Rightarrow> string \<Rightarrow> os_state \<Rightarrow> (error + nat) \<times> os_state" where
  "OpenWrite c name w =
     (case verifyExists c name w of
        (Some err, w') \<Rightarrow> (Inl err, w')
      | (None, w') \<Rightarrow> OpenRaw c name {O_WRONLY, O_TRUNC} 0 w')"

definition OpenWriteAuto :: "Config \<Rightarrow> string \<Rightarrow> os_state \<Rightarrow> ((error + nat) \<times> Config) \<times> os_state" where
  "OpenWriteAuto c name w =
     (case OpenWrite c name w of
        (Inl err, w') \<Rightarrow> ((Inl err, c), w')
      | (Inr wr, w') \<Rightarrow> ((Inr wr, addCloser c wr), w'))"

definition Write :: "Config \<Rightarrow> string \<Rightarrow> string \<Rightarrow> os_state \<Rightarrow> (nat \<times> error option) \<times> os_state" where
  "Write c name data w =
     (case OpenWrite c name w of
        (Inl err, w') \<Rightarrow> ((0, Some err), w')
      | (Inr wr, w') \<Rightarrow>
          (case file_Write wr data w' of (res, w'') \<Rightarrow> (res, snd (file_Close wr w''))))"

definition WriteString :: "Config \<Rightarrow> string \<Rightarrow> string \<Rightarrow> os_state \<Rightarrow> (nat \<times> error option) \<times> os_state" where
  "WriteString c name str w = Write c name str w"

definition WriteJson :: "'v encoder \<Rightarrow> Config \<Rightarrow> string \<Rightarrow> 'v \<Rightarrow> os_state \<Rightarrow> error option \<times> os_state" where
  "WriteJson json c name v w =
     (case OpenWrite c name w of
        (Inl err, w') \<Rightarrow> (Some err, w')
      | (Inr wr, w') \<Rightarrow>
          (case Encode json wr v w' of (res, w'') \<Rightarrow> (res, snd (file_Close wr w''))))"

definition WriteToml :: "'v encoder \<Rightarrow> Config \<Rightarrow> string \<Rightarrow> 'v \<Rightarrow> os_state \<Rightarrow> error option \<times> os_state" where
  "WriteToml toml c name v w =
     (case OpenWrite c name w of
        (Inl err, w') \<Rightarrow> (Some err, w')
      | (Inr wr, w') \<Rightarrow>
          (case Encode toml wr v w' of (res, w'') \<Rightarrow> (res, snd (file_Close wr w''))))"

definition WriteCsv :: "string list list encoder \<Rightarrow> Config \<Rightarrow> string \<Rightarrow> string list list \<Rightarrow> os_state
    \<Rightarrow> error option \<times> os_state" where
  "WriteCsv csv c name records w =
     (case OpenWrite c name w of
        (Inl err, w') \<Rightarrow> (Some err, w')
      | (Inr wr, w') \<Rightarrow>
          (case Encode csv wr records w' of (res, w'') \<Rightarrow> (res, snd (file_Close wr w''))))"

definition WriteXml :: "'v encoder \<Rightarrow> Config \<Rightarrow> string \<Rightarrow> 'v \<Rightarrow> os_state \<Rightarrow> error option \<times> os_state" where
  "WriteXml xml c name v w =
     (case OpenWrite c name w of
        (Inl err, w') \<Rightarrow> (Some err, w')
      | (Inr wr, w') \<Rightarrow>
          (case Encode xml wr v w' of (res, w'') \<Rightarrow> (res, snd (file_Close wr w''))))"

section \<open>create.go\<close>

definition OpenCreateAuto :: "Config \<Rightarrow> string \<Rightarrow> FileMode \<Rightarrow> os_state
    \<Rightarrow> ((error + nat) \<times> Config) \<times> os_state" where
  "OpenCreateAuto c name pm w =
     (case OpenCreate c name pm w of
        (Inl err, w') \<Rightarrow> ((Inl err, c), w')
      | (Inr wr, w') \<Rightarrow> ((Inr wr, addCloser c wr), w'))"

definition Create :: "Config \<Rightarrow> string \<Rightarrow> string \<Rightarrow> FileMode \<Rightarrow> os_state
    \<Rightarrow> (nat \<times> error option) \<times> os_state" where
  "Create c name data pm w =
     (case OpenCreate c name pm w of
        (Inl err, w') \<Rightarrow> ((0, Some err), w')
      | (Inr wr, w') \<Rightarrow>
          (case file_Write wr data w' of (res, w'') \<Rightarrow> (res, snd (file_Close wr w''))))"

definition CreateString :: "Config \<Rightarrow> string \<Rightarrow> string \<Rightarrow> FileMode \<Rightarrow> os_state
    \<Rightarrow> (nat \<times> error option) \<times> os_state" where
  "CreateString c name str pm w = Create c name str pm w"

definition CreateJson :: "'v encoder \<Rightarrow> Config \<Rightarrow> string \<Rightarrow> 'v \<Rightarrow> FileMode \<Rightarrow> os_state
    \<Rightarrow> error option \<times> os_state" where
  "CreateJson json c name v pm w =
     (case OpenCreate c name pm w of
        (Inl err, w') \<Rightarrow> (Some err, w')
      | (Inr wr, w') \<Rightarrow>
          (case Encode json wr v w' of (res, w'') \<Rightarrow> (res, snd (file_Close wr w''))))"

definition CreateToml :: "'v encoder \<Rightarrow> Config \<Rightarrow> string \<Rightarrow> 'v \<Rightarrow> FileMode \<Rightarrow> os_state
    \<Rightarrow> error option \<times> os_state" where
  "CreateToml toml c name v pm w =
     (case OpenCreate c name pm w of
        (Inl err, w') \<Rightarrow> (Some err, w')
      | (Inr wr, w') \<Rightarrow>
          (case Encode toml wr v w' of (res, w'') \<Rightarrow> (res, snd (file_Close wr w''))))"

definition CreateCsv :: "string list list encoder \<Rightarrow> Config \<Rightarrow> string \<Rightarrow> string list list \<Rightarrow> FileMode
    \<Rightarrow> os_state \<Rightarrow> error option \<times> os_state" where
  "CreateCsv csv c name records pm w =
     (case OpenCreate c name pm w of
        (Inl err, w') \<Rightarrow> (Some err, w')
      | (Inr wr, w') \<Rightarrow>
          (case Encode csv wr records w' of (res, w'') \<Rightarrow> (res, snd (file_Close wr w''))))"

definition CreateXml :: "'v encoder \<Rightarrow> Config \<Rightarrow> string \<Rightarrow> 'v \<Rightarrow> FileMode \<Rightarrow> os_state
    \<Rightarrow> error option \<times> os_state" where
  "CreateXml xml c name v pm w =
     (case OpenCreate c name pm w of
        (Inl err, w') \<Rightarrow> (Some err, w')
      | (Inr wr, w') \<Rightarrow>
          (case Encode xml wr v w' of (res, w'') \<Rightarrow> (res, snd (file_Close wr w''))))"

section \<open>The accessor families\<close>

text \<open>
  To speak of every accessor of a family at once: a call of an accessor of the family
  with its arguments other than the handle and the file name, and what the call gives: the
  error it returned, the \<open>Config\<close> after it and the state after it.
\<close>

datatype 'v read_accessor =
    AOpenRead | AOpenReadAuto | ARead | AReadString
  | AReadJson "'v decoder" | AReadToml "'v decoder"
  | AReadCsv "string list list decoder" | AReadXml "'v decoder"

datatype 'v write_accessor =
    AOpenWrite | AOpenWriteAuto | AWrite string | AWriteString string
  | AWriteJson "'v encoder" 'v | AWriteToml "'v encoder" 'v
  | AWriteCsv "string list list encoder" "string list list" | AWriteXml "'v encoder" 'v

datatype 'v create_accessor =
    AOpenCreate | AOpenCreateAuto | ACreate string | ACreateString string
  | ACreateJson "'v encoder" 'v | ACreateToml "'v encoder" 'v
  | ACreateCsv "string list list encoder" "string list list" | ACreateXml "'v encoder" 'v

definition err_of :: "error + 'a \<Rightarrow> error option" where
  "err_of r = (case r of Inl e \<Rightarrow> Some e | Inr _ \<Rightarrow> None)"

fun read_call :: "'v read_accessor \<Rightarrow> Config \<Rightarrow> string \<Rightarrow> os_state
    \<Rightarrow> error option \<times> Config \<times> os_state" where
  "read_call AOpenRead c name w = (case OpenRead c name w of (r, w') \<Rightarrow> (err_of r, c, w'))"
| "read_call AOpenReadAuto c name w =
     (case OpenReadAuto c name w of ((r, c'), w') \<Rightarrow> (err_of r, c', w'))"
| "read_call ARead c name w = (case Read c name w of ((_, e), w') \<Rightarrow> (e, c, w'))"
| "read_call AReadString c name w = (case ReadString c name w of ((_, e), w') \<Rightarrow> (e, c, w'))"
| "read_call (AReadJson dec) c name w =
     (case ReadJson dec c name w of (r, w') \<Rightarrow> (err_of r, c, w'))"
| "read_call (AReadToml dec) c name w =
     (case ReadToml dec c name w of (r, w') \<Rightarrow> (err_of r, c, w'))"
| "read_call (AReadCsv dec) c name w =
     (case ReadCsv dec c name w of (r, w') \<Rightarrow> (err_of r, c, w'))"
| "read_call (AReadXml dec) c name w =
     (case ReadXml dec c name w of (r, w') \<Rightarrow> (err_of r, c, w'))"

fun write_call :: "'v write_accessor \<Rightarrow> Config \<Rightarrow> string \<Rightarrow> os_state
    \<Rightarrow> error option \<times> Config \<times> os_state" where
  "write_call AOpenWrite c name w = (case OpenWrite c name w of (r, w') \<Rightarrow> (err_of r, c, w'))"
| "write_call AOpenWriteAuto c name w =
     (case OpenWriteAuto c name w of ((r, c'), w') \<Rightarrow> (err_of r, c', w'))"
| "write_call (AWrite data) c name w =
     (case Write c name data w of ((_, e), w') \<Rightarrow> (e, c, w'))"
| "write_call (AWriteString str) c name w =
     (case WriteString c name str w of ((_, e), w') \<Rightarrow> (e, c, w'))"
| "write_call (AWriteJson enc v) c name w =
     (case WriteJson enc c name v w of (e, w') \<Rightarrow> (e, c, w'))"
| "write_call (AWriteToml enc v) c name w =
     (case WriteToml enc c name v w of (e, w') \<Rightarrow> (e, c, w'))"
| "write_call (AWriteCsv enc records) c name w =
     (case WriteCsv enc c name records w of (e, w') \<Rightarrow> (e, c, w'))"
| "write_call (AWriteXml enc v) c name w =
     (case WriteXml enc c name v w of (e, w') \<Rightarrow> (e, c, w'))"

fun create_call :: "'v create_accessor \<Rightarrow> Config \<Rightarrow> string \<Rightarrow> FileMode \<Rightarrow> os_state
    \<Rightarrow> error option \<times> Config \<times> os_state" where
  "create_call AOpenCreate c name pm w =
     (case OpenCreate c name pm w of (r, w') \<Rightarrow> (err_of r, c, w'))"
| "create_call AOpenCreateAuto c name pm w =
     (case OpenCreateAuto c name pm w of ((r, c'), w') \<Rightarrow> (err_of r, c', w'))"
| "create_call (ACreate data) c name pm w =
     (case Create c name data pm w of ((_, e), w') \<Rightarrow> (e, c, w'))"
| "create_call (ACreateString str) c name pm w =
     (case CreateString c name str pm w of ((_, e), w') \<Rightarrow> (e, c, w'))"
| "create_call (ACreateJson enc v) c name pm w =
     (case CreateJson enc c name v pm w of (e, w') \<Rightarrow> (e, c, w'))"
| "create_call (ACreateToml enc v) c name pm w =
     (case CreateToml enc c name v pm w of (e, w') \<Rightarrow> (e, c, w'))"
| "create_call (ACreateCsv enc records) c name pm w =
     (case CreateCsv enc c name records pm w of (e, w') \<Rightarrow> (e, c, w'))"
| "create_call (ACreateXml enc v) c name pm w =
     (case CreateXml enc c name v pm w of (e, w') \<Rightarrow> (e, c, w'))"


text \<open>The entry of the file system that a file name of the handle stands for.\<close>

definition file_at :: "os_state \<Rightarrow> Config \<Rightarrow> string \<Rightarrow> node option" where
  "file_at w c name = files w (resolve w (child c name))"

section \<open>Example states\<close>

text \<open>
  A home directory \<open>/home/u\<close> (the working directory) under umask 022 (decimal 18),
  with directories of mode 755 (decimal 493); and the same with a configuration directory
  \<open>/home/u/app\<close> that holds the files \<open>a\<close> and \<open>b\<close> of mode 644 (decimal 420).
\<close>

definition home_os :: os_state where
  "home_os =
     \<lparr>files = [[] \<mapsto> Directory 493, [''home''] \<mapsto> Directory 493,
               [''home'', ''u''] \<mapsto> Directory 493],
      handles = Map.empty, next_handle = 0, umask = 18, cwd = [''home'', ''u''], stdout = []\<rparr>"

definition app_os :: os_state where
  "app_os =
     home_os\<lparr>files := (files home_os)
        ([''home'', ''u'', ''app''] \<mapsto> Directory 493,
         [''home'', ''u'', ''app'', ''a''] \<mapsto> File 420 ''A'',
         [''home'', ''u'', ''app'', ''b''] \<mapsto> File 420 ''B'')\<rparr>"

definition app_conf :: Config where
  "app_conf = \<lparr>defaults = Map.empty, closers = [], path = ''/home/u/app''\<rparr>"

section \<open>Open and closed files\<close>

text \<open>
  A file object is open when it has been handed out and not closed. Closing one that is
  not open gives an error: \<open>close name: file already closed\<close>.
\<close>

definition is_open :: "os_state \<Rightarrow> nat \<Rightarrow> bool" where
  "is_open w h = (case handles w h of Some fl \<Rightarrow> \<not> of_closed fl | None \<Rightarrow> False)"

definition close_error :: "os_state \<Rightarrow> nat \<Rightarrow> error" where
  "close_error w h =
     (case handles w h of
        None \<Rightarrow> ErrorString ''invalid argument''
      | Some fl \<Rightarrow> PathError ''close'' (of_name fl) ErrClosed)"

text \<open>
  An example for the bulk close: three tracked files, of which the second has been closed
  already.
\<close>

definition tracked_os :: os_state where
  "tracked_os =
     app_os\<lparr>handles :=
        [3 \<mapsto> \<lparr>of_key = [''home'', ''u'', ''app'', ''a''], of_name = ''/home/u/app/a'',
                of_read = True, of_write = False, of_append = False, of_pos = 0, of_closed = False\<rparr>,
         4 \<mapsto> \<lparr>of_key = [''home'', ''u'', ''app'', ''b''], of_name = ''/home/u/app/b'',
                of_read = True, of_write = False, of_append = False, of_pos = 0, of_closed = True\<rparr>,
         5 \<mapsto> \<lparr>of_key = [''home'', ''u'', ''app'', ''b''], of_name = ''/home/u/app/b'',
                of_read = False, of_write = True, of_append = False, of_pos = 0, of_closed = False\<rparr>],
        next_handle := 6\<rparr>"

definition tracked_conf :: Config where
  "tracked_conf = app_conf\<lparr>closers := [3, 4, 5]\<rparr>"

text \<open>The home directory after a first \<open>OpenSpecific "/home/u/app"\<close>.\<close>

definition fresh_os :: os_state where
  "fresh_os = home_os\<lparr>files := (files home_os)([''home'', ''u'', ''app''] \<mapsto> Directory 493)\<rparr>"

section \<open>A default that has been written out\<close>

text \<open>
  The state after the guard \<open>verifyExists\<close> has created a file of the handle with
  permission \<open>pm\<close> and a callback has written \<open>out\<close> into it: the file is there,
  with the permission as the umask leaves it, and the file object of the exclusive open is
  still open.
\<close>

definition materialized :: "Config \<Rightarrow> string \<Rightarrow> FileMode \<Rightarrow> string \<Rightarrow> os_state \<Rightarrow> os_state" where
  "materialized c name pm out w =
     w\<lparr>files := (files w)(resolve w (child c name) \<mapsto> File (created_perm w pm) out),
       handles := (handles w)(next_handle w \<mapsto>
          \<lparr>of_key = resolve w (child c name), of_name = child c name, of_read = True,
           of_write = True, of_append = False, of_pos = length out, of_closed = False\<rparr>),
       next_handle := Suc (next_handle w)\<rparr>"

text \<open>
  The handle on \<open>/home/u/app\<close> after
  \<^verbatim>\<open>DefaultString("sshkey.pub", 0o666, "[SSHKEY]")\<close> (438 is octal 666).
\<close>

definition key_conf :: Config where
  "key_conf = app_conf\<lparr>defaults := [''sshkey.pub'' \<mapsto> \<lparr>f = write_callback ''[SSHKEY]'', perm = 438\<rparr>]\<rparr>"

section \<open>Round trips\<close>









section \<open>Sequences of calls\<close>

text \<open>
  To follow a file object through the calls of the package: a state extends another when
  it has handed out at least the same file objects and those of the earlier state are open
  or closed as they were. A callback is quiet when it opens and closes nothing; the
  callback of \<open>Default\<close> is. A call of the package is one of the accessors, the bulk
  close, a delete or the registration of a default; a panic ends the run.
\<close>

definition extends :: "os_state \<Rightarrow> os_state \<Rightarrow> bool" where
  "extends w w' = (next_handle w \<le> next_handle w' \<and> (\<forall>h < next_handle w. is_open w' h = is_open w h))"

definition quiet :: "generator \<Rightarrow> bool" where
  "quiet g = (\<forall>p wr w. next_handle (snd (g p wr w)) = next_handle w \<and>
                        (\<forall>h. is_open (snd (g p wr w)) h = is_open w h))"

definition quiet_defaults :: "Config \<Rightarrow> bool" where
  "quiet_defaults c = (\<forall>name d. defaults c name = Some d \<longrightarrow> quiet (f d))"

datatype 'v call =
    ReadCall "'v read_accessor" string
  | WriteCall "'v write_accessor" string
  | CreateCall "'v create_accessor" string FileMode
  | CloseCall
  | DeleteCall
  | DeleteFileCall string
  | DefaultFuncCall string FileMode generator
  | DefaultCall string FileMode string
  | DefaultStringCall string FileMode string

fun registered :: "Config outcome \<Rightarrow> os_state \<Rightarrow> (Config \<times> os_state) option" where
  "registered (Panics _) w = None"
| "registered (Returns c) w = Some (c, w)"

fun api_call :: "'v call \<Rightarrow> Config \<times> os_state \<Rightarrow> (Config \<times> os_state) option" where
  "api_call (ReadCall a name) (c, w) = Some (snd (read_call a c name w))"
| "api_call (WriteCall a name) (c, w) = Some (snd (write_call a c name w))"
| "api_call (CreateCall a name pm) (c, w) = Some (snd (create_call a c name pm w))"
| "api_call CloseCall (c, w) = Some (c, snd (Close c w))"
| "api_call DeleteCall (c, w) = Some (c, snd (Delete c w))"
| "api_call (DeleteFileCall name) (c, w) = Some (c, snd (DeleteFile c name w))"
| "api_call (DefaultFuncCall name pm g) (c, w) = registered (DefaultFunc c name pm g) w"
| "api_call (DefaultCall name pm data) (c, w) = registered (Default c name pm data) w"
| "api_call (DefaultStringCall name pm str) (c, w) = registered (DefaultString c name pm str) w"

fun run :: "'v call list \<Rightarrow> Config \<times> os_state \<Rightarrow> Config \<times> os_state" where
  "run [] s = s"
| "run (x # xs) s = (case api_call x s of None \<Rightarrow> s | Some s' \<Rightarrow> run xs s')"

fun quiet_call :: "'v call \<Rightarrow> bool" where
  "quiet_call (DefaultFuncCall name pm g) = quiet g"
| "quiet_call _ = True"

definition untracked_open :: "nat \<Rightarrow> Config \<times> os_state \<Rightarrow> bool" where
  "untracked_open h s =
     (is_open (snd s) h \<and> h < next_handle (snd s) \<and> h \<notin> set (closers (fst s)) \<and>
      (\<forall>x \<in> set (closers (fst s)). x < next_handle (snd s)) \<and> quiet_defaults (fst s))"

definition opens :: "os_state \<Rightarrow> error + nat \<Rightarrow> os_state \<Rightarrow> bool" where
  "opens w1 r w2 =
     (case r of
        Inl _ \<Rightarrow> next_handle w2 = next_handle w1 \<and> (\<forall>x. is_open w2 x = is_open w1 x)
      | Inr h \<Rightarrow> h = next_handle w1 \<and> next_handle w2 = Suc h \<and> is_open w2 h \<and>
                 (\<forall>x. x \<noteq> h \<longrightarrow> is_open w2 x = is_open w1 x))"

text \<open>What an accessor does after its open: it uses and closes at most the file it opened.\<close>

definition tail_of :: "error + nat \<Rightarrow> os_state \<Rightarrow> Config \<Rightarrow> bool \<Rightarrow> Config \<times> os_state \<Rightarrow> bool" where
  "tail_of r w2 c auto s =
     (next_handle (snd s) = next_handle w2 \<and>
      (\<forall>x. r \<noteq> Inr x \<longrightarrow> is_open (snd s) x = is_open w2 x) \<and>
      defaults (fst s) = defaults c \<and>
      (closers (fst s) = closers c \<or>
       (auto \<and> (\<exists>h. r = Inr h \<and> closers (fst s) = closers c @ [h]))))"

text \<open>
  The tracked files of a handle are fresh when they are distinct file objects that have
  been handed out, and the callbacks are quiet.
\<close>

definition tracked_fresh :: "Config \<times> os_state \<Rightarrow> bool" where
  "tracked_fresh s =
     (distinct (closers (fst s)) \<and> (\<forall>x \<in> set (closers (fst s)). x < next_handle (snd s)) \<and>
      quiet_defaults (fst s))"

section \<open>Properties\<close>

lemma Clean_not_empty: "Clean p \<noteq> []"
  by (simp add: Clean_def Let_def)

lemma OpenSpecific_never_panics: "fst (OpenSpecific p w) \<noteq> Panics msg"
  by (simp add: OpenSpecific_def Let_def Clean_not_empty split: prod.splits option.splits)

subsection \<open>The empty path\<close>

text \<open>
  C3. The claim: for the empty path, \<open>OpenSpecific\<close> aborts (panics) rather than
  returning an error or a handle. The check \<^verbatim>\<open>path == ""\<close> comes after
  \<^verbatim>\<open>filepath.Clean\<close>, which never returns the empty string (it returns \<open>.\<close> for it),
  so the panic cannot be reached: in the home directory, \<open>OpenSpecific ""\<close> returns a
  handle bound to \<open>.\<close>, the working directory, and changes nothing.
\<close>

theorem OpenSpecific_empty_path_returns_handle:
  "OpenSpecific [] home_os =
     (Returns (Inr \<lparr>defaults = Map.empty, closers = [], path = ''.''\<rparr>), home_os)"
  by (simp add: OpenSpecific_def Clean_def create_def Exists_def Stat_def child_def
      filepath_Join_def rooted_def elems_def sep_def os_Stat_def resolve_def home_os_def Let_def)

subsection \<open>Deleting\<close>

text \<open>
  C2. \<open>DeleteFile\<close>, with any file name, does what \<open>Delete\<close> does: it ignores the name
  and calls \<^verbatim>\<open>os.RemoveAll\<close> on the path of the handle. Where \<^verbatim>\<open>os.RemoveAll\<close>
  accepts that path (it refuses one that ends in \<open>.\<close>), the call succeeds, the directory
  and everything at or below it is gone, and every other entry is as before.
\<close>

theorem DeleteFile_is_Delete:
  "DeleteFile c name w = Delete c w \<and>
   (path c \<noteq> [] \<and> \<not> endsWithDot (path c) \<longrightarrow>
      fst (DeleteFile c name w) = None \<and>
      (\<forall>k. files (snd (DeleteFile c name w)) k =
             (if at_or_below (resolve w (path c)) k then None else files w k)))"
  by (simp add: DeleteFile_def Delete_def os_RemoveAll_def)

theorem DeleteFile_is_Delete_witness:
  "DeleteFile app_conf ''a'' app_os = Delete app_conf app_os \<and>
   fst (DeleteFile app_conf ''a'' app_os) = None \<and>
   files (snd (DeleteFile app_conf ''a'' app_os)) [''home'', ''u'', ''app''] = None \<and>
   files (snd (DeleteFile app_conf ''a'' app_os)) [''home'', ''u'', ''app'', ''b''] = None \<and>
   files (snd (DeleteFile app_conf ''a'' app_os)) [''home'', ''u''] = Some (Directory 493)"
proof -
  have h: "path app_conf \<noteq> [] \<and> \<not> endsWithDot (path app_conf)"
    by (simp add: app_conf_def endsWithDot_def sep_def)
  have r: "resolve app_os (path app_conf) = [''home'', ''u'', ''app'']"
    by (simp add: app_conf_def resolve_def rooted_def elems_def sep_def)
  have u: "files app_os [''home'', ''u''] = Some (Directory 493)"
    by (simp add: app_os_def home_os_def)
  from DeleteFile_is_Delete [of app_conf "''a''" app_os] h
  have "DeleteFile app_conf ''a'' app_os = Delete app_conf app_os"
    and "fst (DeleteFile app_conf ''a'' app_os) = None"
    and "\<And>k. files (snd (DeleteFile app_conf ''a'' app_os)) k =
             (if at_or_below (resolve app_os (path app_conf)) k then None else files app_os k)"
    by blast+
  then show ?thesis by (simp add: r u at_or_below_def)
qed

subsection \<open>Facts about the example states\<close>

lemma child_app:
  "child app_conf ''a'' = ''/home/u/app/a''"
  "child app_conf ''missing'' = ''/home/u/app/missing''"
  by (simp_all add: child_def app_conf_def filepath_Join_def Clean_def rooted_def elems_def sep_def)

lemma Exists_app_missing: "Exists app_conf ''missing'' app_os = (False, None)"
  by (simp add: Exists_def Stat_def child_app os_Stat_def resolve_def rooted_def elems_def sep_def
      app_os_def home_os_def missing_def is_file_def)

lemma Exists_app_a: "Exists app_conf ''a'' app_os = (True, None)"
  by (simp add: Exists_def Stat_def child_app os_Stat_def resolve_def rooted_def elems_def sep_def
      app_os_def home_os_def)

subsection \<open>A file that is absent and has no default\<close>

lemmas read_defs = OpenReadAuto_def Read_def ReadString_def ReadJson_def ReadToml_def
  ReadCsv_def ReadXml_def

lemmas write_defs = OpenWriteAuto_def Write_def WriteString_def WriteJson_def WriteToml_def
  WriteCsv_def WriteXml_def

lemmas create_defs = OpenCreateAuto_def Create_def CreateString_def CreateJson_def CreateToml_def
  CreateCsv_def CreateXml_def

lemma verifyExists_absent_no_default:
  "Exists c name w = (False, None) \<Longrightarrow> defaults c name = None \<Longrightarrow>
   verifyExists c name w = (Some (ErrorString (quote # name @ quote # '' does not exist'')), w)"
  by (simp add: verifyExists_def)

lemma OpenRead_absent_no_default:
  "Exists c name w = (False, None) \<Longrightarrow> defaults c name = None \<Longrightarrow>
   OpenRead c name w = (Inl (ErrorString (quote # name @ quote # '' does not exist'')), w)"
  by (simp add: OpenRead_def verifyExists_absent_no_default)

lemma OpenWrite_absent_no_default:
  "Exists c name w = (False, None) \<Longrightarrow> defaults c name = None \<Longrightarrow>
   OpenWrite c name w = (Inl (ErrorString (quote # name @ quote # '' does not exist'')), w)"
  by (simp add: OpenWrite_def verifyExists_absent_no_default)

text \<open>
  C4. For a file name that has no registered default and that the existence check of the
  handle reports absent, every accessor of the read family and of the write family returns
  the error \<open>'name' does not exist\<close>, which carries the file name, and leaves the state
  of the operating system (the files and directories with their contents, the open files,
  the output) and the handle as they were.
\<close>

theorem absent_without_default_fails:
  assumes "Exists c name w = (False, None)" and "defaults c name = None"
  shows "(\<forall>a :: 'u read_accessor. read_call a c name w =
               (Some (ErrorString (quote # name @ quote # '' does not exist'')), c, w)) \<and>
         (\<forall>a :: 'v write_accessor. write_call a c name w =
               (Some (ErrorString (quote # name @ quote # '' does not exist'')), c, w))"
proof (intro conjI allI)
  fix a :: "'u read_accessor"
  show "read_call a c name w =
          (Some (ErrorString (quote # name @ quote # '' does not exist'')), c, w)"
    using assms by (cases a) (simp_all add: read_defs OpenRead_absent_no_default err_of_def)
next
  fix a :: "'v write_accessor"
  show "write_call a c name w =
          (Some (ErrorString (quote # name @ quote # '' does not exist'')), c, w)"
    using assms by (cases a) (simp_all add: write_defs OpenWrite_absent_no_default err_of_def)
qed

theorem absent_without_default_fails_witness:
  "Exists app_conf ''missing'' app_os = (False, None) \<and> defaults app_conf ''missing'' = None \<and>
   read_call (ARead :: nat read_accessor) app_conf ''missing'' app_os =
     (Some (ErrorString (quote # ''missing'' @ quote # '' does not exist'')), app_conf, app_os) \<and>
   write_call (AWrite ''x'' :: nat write_accessor) app_conf ''missing'' app_os =
     (Some (ErrorString (quote # ''missing'' @ quote # '' does not exist'')), app_conf, app_os)"
proof -
  have d: "defaults app_conf ''missing'' = None"
    by (simp add: app_conf_def)
  from absent_without_default_fails [where 'u = nat and 'v = nat, OF Exists_app_missing d]
  show ?thesis using Exists_app_missing d by blast
qed

subsection \<open>Creating a file that exists\<close>

lemma Exists_True:
  "Exists c name w = (True, None) \<Longrightarrow> child c name \<noteq> [] \<and> file_at w c name \<noteq> None"
  by (auto simp: Exists_def Stat_def os_Stat_def file_at_def
      split: sum.splits if_splits option.splits)

lemma OpenCreate_exists:
  "Exists c name w = (True, None) \<Longrightarrow>
   OpenCreate c name pm w = (Inl (PathError ''open'' (child c name) EEXIST), w)"
  by (drule Exists_True) (auto simp: OpenCreate_def OpenRaw_def os_OpenFile_def file_at_def)

text \<open>
  C5. For a file name that exists under the handle (the existence check reports it),
  every operation of the create family fails with the error of the exclusive open,
  \<open>open path: file exists\<close>, for which \<^verbatim>\<open>errors.Is(err, os.ErrExist)\<close> holds, and the
  state is as before: the file and its content are untouched, and nothing was opened.
\<close>

theorem create_existing_fails:
  assumes "Exists c name w = (True, None)"
  shows "(\<forall>a :: 'v create_accessor.
            create_call a c name pm w = (Some (PathError ''open'' (child c name) EEXIST), c, w)) \<and>
         is_ErrExist (PathError ''open'' (child c name) EEXIST)"
proof (intro conjI allI)
  fix a :: "'v create_accessor"
  show "create_call a c name pm w = (Some (PathError ''open'' (child c name) EEXIST), c, w)"
    using assms by (cases a) (simp_all add: create_defs OpenCreate_exists err_of_def)
qed simp

theorem create_existing_fails_witness:
  "Exists app_conf ''a'' app_os = (True, None) \<and>
   create_call (ACreate ''x'' :: nat create_accessor) app_conf ''a'' 420 app_os =
     (Some (PathError ''open'' ''/home/u/app/a'' EEXIST), app_conf, app_os) \<and>
   file_at app_os app_conf ''a'' = Some (File 420 ''A'')"
proof -
  have "file_at app_os app_conf ''a'' = Some (File 420 ''A'')"
    by (simp add: file_at_def child_app resolve_def rooted_def elems_def sep_def
        app_os_def home_os_def)
  with create_existing_fails [where 'v = nat, OF Exists_app_a, of 420] Exists_app_a
  show ?thesis by (simp add: child_app del: create_call.simps)
qed

subsection \<open>Bulk close\<close>

lemma file_Close_open:
  "is_open w h \<Longrightarrow> fst (file_Close h w) = None \<and> \<not> is_open (snd (file_Close h w)) h \<and>
     (\<forall>h'. h' \<noteq> h \<longrightarrow> handles (snd (file_Close h w)) h' = handles w h')"
  by (auto simp: is_open_def file_Close_def split: option.splits)

lemma file_Close_not_open:
  "\<not> is_open w h \<Longrightarrow> file_Close h w = (Some (close_error w h), w)"
  by (auto simp: is_open_def file_Close_def close_error_def split: option.splits)

lemma file_Close_stays_closed:
  "\<not> is_open w h' \<Longrightarrow> \<not> is_open (snd (file_Close h w)) h'"
  by (auto simp: is_open_def file_Close_def split: option.splits)

lemma close_each_stays_closed:
  "\<not> is_open w h \<Longrightarrow> \<not> is_open (snd (close_each hs errs w)) h"
proof (induction hs arbitrary: errs w)
  case Nil
  then show ?case by simp
next
  case (Cons a hs)
  obtain e w' where fc: "file_Close a w = (e, w')"
    by (cases "file_Close a w")
  from Cons.prems have "\<not> is_open (snd (file_Close a w)) h"
    by (rule file_Close_stays_closed)
  with fc have "\<not> is_open w' h" by simp
  then have "\<not> is_open (snd (close_each hs errs' w')) h" for errs'
    by (rule Cons.IH)
  then show ?case using fc by (cases e) simp_all
qed

lemma close_each_errors:
  "distinct hs \<Longrightarrow>
   fst (close_each hs errs w) = errs @ map (close_error w) (filter (\<lambda>h. \<not> is_open w h) hs)"
proof (induction hs arbitrary: errs w)
  case Nil
  then show ?case by simp
next
  case (Cons a hs)
  then have d: "distinct hs" and n: "a \<notin> set hs" by simp_all
  show ?case
  proof (cases "is_open w a")
    case True
    obtain w' where w': "file_Close a w = (None, w')"
      using file_Close_open [OF True] by (cases "file_Close a w") auto
    have same: "\<forall>h'. h' \<noteq> a \<longrightarrow> handles w' h' = handles w h'"
      using file_Close_open [OF True] w' by simp
    have f: "filter (\<lambda>h. \<not> is_open w' h) hs = filter (\<lambda>h. \<not> is_open w h) hs"
      using n same by (intro filter_cong) (auto simp: is_open_def)
    have m: "map (close_error w') (filter (\<lambda>h. \<not> is_open w h) hs)
           = map (close_error w) (filter (\<lambda>h. \<not> is_open w h) hs)"
      using n same by (intro map_cong) (auto simp: close_error_def)
    show ?thesis
      using True w' Cons.IH [OF d, of errs w'] by (simp add: f m)
  next
    case False
    show ?thesis
      using False Cons.IH [OF d, of "errs @ [close_error w a]" w]
      by (simp add: file_Close_not_open)
  qed
qed

lemma close_each_closes:
  "h \<in> set hs \<Longrightarrow> \<not> is_open (snd (close_each hs errs w)) h"
proof (induction hs arbitrary: errs w)
  case Nil
  then show ?case by simp
next
  case (Cons a hs)
  obtain e w' where fc: "file_Close a w = (e, w')"
    by (cases "file_Close a w")
  show ?case
  proof (cases "h = a")
    case True
    have "\<not> is_open (snd (file_Close a w)) a"
      using file_Close_open [of w a] file_Close_stays_closed [of w a a] by blast
    with fc True have "\<not> is_open w' h" by simp
    then have "\<not> is_open (snd (close_each hs errs' w')) h" for errs'
      by (rule close_each_stays_closed)
    then show ?thesis using fc by (cases e) simp_all
  next
    case False
    with Cons.prems have "h \<in> set hs" by simp
    then have "\<not> is_open (snd (close_each hs errs' w')) h" for errs'
      by (rule Cons.IH)
    then show ?thesis using fc by (cases e) simp_all
  qed
qed

text \<open>
  C8. \<open>Close\<close> goes through every tracked file, whether a close fails or not, and
  returns the errors of all the closes that failed, in order: on a handle whose tracked
  files are distinct file objects (they are, see \<open>tracked_files_distinct\<close> below), it
  returns exactly one error for each tracked file that was not open (closed already, or
  invalid), so with M such files M errors, and afterwards no tracked file is open.
\<close>

theorem Close_collects_all_errors:
  assumes "distinct (closers c)"
  shows "fst (Close c w) = map (close_error w) (filter (\<lambda>h. \<not> is_open w h) (closers c)) \<and>
         length (fst (Close c w)) = length (filter (\<lambda>h. \<not> is_open w h) (closers c)) \<and>
         (\<forall>h \<in> set (closers c). \<not> is_open (snd (Close c w)) h)"
  using assms by (simp add: Close_def close_each_errors close_each_closes)


theorem Close_collects_all_errors_witness:
  "distinct (closers tracked_conf) \<and>
   fst (Close tracked_conf tracked_os) = [PathError ''close'' ''/home/u/app/b'' ErrClosed] \<and>
   length (filter (\<lambda>h. \<not> is_open tracked_os h) (closers tracked_conf)) = 1 \<and>
   \<not> is_open (snd (Close tracked_conf tracked_os)) 3 \<and>
   \<not> is_open (snd (Close tracked_conf tracked_os)) 4 \<and>
   \<not> is_open (snd (Close tracked_conf tracked_os)) 5"
proof -
  have d: "distinct (closers tracked_conf)"
    by (simp add: tracked_conf_def app_conf_def)
  have c: "closers tracked_conf = [3, 4, 5]"
    by (simp add: tracked_conf_def app_conf_def)
  have o: "is_open tracked_os 3" "\<not> is_open tracked_os 4" "is_open tracked_os 5"
    by (simp_all add: is_open_def tracked_os_def)
  have e: "close_error tracked_os 4 = PathError ''close'' ''/home/u/app/b'' ErrClosed"
    by (simp add: close_error_def tracked_os_def)
  from Close_collects_all_errors [OF d, of tracked_os] d
  show ?thesis by (simp add: c o e)
qed

subsection \<open>Cleaning a path twice\<close>

lemma split_sep_not_Nil: "split_sep p \<noteq> []"
  by (cases p) (simp_all split: list.splits)

lemma split_sep_no_sep: "x \<in> set (split_sep p) \<Longrightarrow> sep \<notin> set x"
proof (induction p arbitrary: x)
  case Nil
  then show ?case by simp
next
  case (Cons c cs)
  obtain y ys where s: "split_sep cs = y # ys"
    using split_sep_not_Nil [of cs] by (cases "split_sep cs") auto
  have "sep \<notin> set y" and "\<And>z. z \<in> set ys \<Longrightarrow> sep \<notin> set z"
    using Cons.IH s by simp_all
  then show ?case using Cons.prems s by (auto split: if_splits)
qed

lemma split_sep_single: "sep \<notin> set x \<Longrightarrow> split_sep x = [x]"
  by (induction x) auto

lemma split_sep_append: "sep \<notin> set x \<Longrightarrow> split_sep (x @ sep # rest) = x # split_sep rest"
  by (induction x) auto

lemma split_join_sep:
  "xs \<noteq> [] \<Longrightarrow> \<forall>x \<in> set xs. sep \<notin> set x \<Longrightarrow> split_sep (join_sep xs) = xs"
  by (induction xs rule: join_sep.induct) (simp_all add: split_sep_single split_sep_append)

lemma elems_ok: "x \<in> set (elems p) \<Longrightarrow> x \<noteq> [] \<and> x \<noteq> ''.'' \<and> sep \<notin> set x"
  by (auto simp: elems_def dest: split_sep_no_sep)

lemma collapse_append: "collapse r out (xs @ ys) = collapse r (collapse r out xs) ys"
  by (induction xs arbitrary: out) auto

lemma collapse_subset: "set (collapse r out xs) \<subseteq> set out \<union> set xs"
proof (induction xs arbitrary: out)
  case Nil
  then show ?case by simp
next
  case (Cons x xs)
  have "set (butlast out) \<subseteq> set out"
    by (auto dest: in_set_butlastD)
  with Cons.IH [of "butlast out"] Cons.IH [of out] Cons.IH [of "out @ [x]"]
  show ?case by auto
qed

lemma collapse_stable:
  "collapse r [] out = out \<Longrightarrow> collapse r [] (collapse r out xs) = collapse r out xs"
proof (induction xs arbitrary: out)
  case Nil
  then show ?case by simp
next
  case (Cons x xs)
  have push: "collapse r [] (out @ [y]) = collapse r out [y]" for y
    using Cons.prems by (simp add: collapse_append)
  show ?case
  proof (cases "x = ''..''")
    case False
    then have "collapse r [] (out @ [x]) = out @ [x]"
      using push [of x] by simp
    then show ?thesis using False Cons.IH [of "out @ [x]"] by simp
  next
    case True
    show ?thesis
    proof (cases "out \<noteq> [] \<and> last out \<noteq> ''..''")
      case pop: True
      then have o: "out = butlast out @ [last out]" by simp
      have "collapse r [] out = collapse r (collapse r [] (butlast out)) [last out]"
        by (subst o) (simp only: collapse_append)
      also have "\<dots> = collapse r [] (butlast out) @ [last out]"
        using pop by simp
      finally have "collapse r [] (butlast out) @ [last out] = butlast out @ [last out]"
        using Cons.prems o by simp
      then have "collapse r [] (butlast out) = butlast out" by simp
      then show ?thesis using True pop Cons.IH [of "butlast out"] by simp
    next
      case nopop: False
      show ?thesis
      proof (cases r)
        case True
        then show ?thesis using \<open>x = ''..''\<close> nopop Cons.IH [OF Cons.prems] by auto
      next
        case False
        have "collapse r [] (out @ [x]) = out @ [x]"
          using push [of x] \<open>x = ''..''\<close> nopop False by auto
        then show ?thesis using \<open>x = ''..''\<close> nopop False Cons.IH [of "out @ [x]"] by auto
      qed
    qed
  qed
qed

lemma collapse_idem: "collapse r [] (collapse r [] xs) = collapse r [] xs"
  by (rule collapse_stable) simp

lemma hd_not_sep: "x \<noteq> [] \<Longrightarrow> sep \<notin> set x \<Longrightarrow> hd x \<noteq> sep"
  by (cases x) auto

lemma join_sep_head:
  "xs \<noteq> [] \<Longrightarrow> \<forall>x \<in> set xs. x \<noteq> [] \<and> sep \<notin> set x \<Longrightarrow>
   join_sep xs \<noteq> [] \<and> hd (join_sep xs) \<noteq> sep"
  by (induction xs rule: join_sep.induct) (simp_all add: hd_append hd_not_sep)

lemma elems_join_sep:
  assumes "\<forall>x \<in> set xs. x \<noteq> [] \<and> x \<noteq> ''.'' \<and> sep \<notin> set x"
  shows "elems (join_sep xs) = xs"
proof (cases "xs = []")
  case True
  then show ?thesis by (simp add: elems_def)
next
  case False
  then have "split_sep (join_sep xs) = xs"
    using assms by (simp add: split_join_sep)
  then show ?thesis using assms by (simp add: elems_def filter_id_conv)
qed

lemma elems_rooted: "elems (sep # s) = elems s"
  by (simp add: elems_def)

lemma collapse_ok:
  "x \<in> set (collapse r [] (elems p)) \<Longrightarrow> x \<noteq> [] \<and> x \<noteq> ''.'' \<and> sep \<notin> set x"
  using collapse_subset [of r "[]" "elems p"] elems_ok [of x p] by auto

lemma Clean_idem: "Clean (Clean p) = Clean p"
proof (cases "p = []")
  case True
  then show ?thesis by (simp add: Clean_def rooted_def elems_def sep_def)
next
  case False
  define N where "N = collapse (rooted p) [] (elems p)"
  have ok: "\<forall>x \<in> set N. x \<noteq> [] \<and> x \<noteq> ''.'' \<and> sep \<notin> set x"
    unfolding N_def using collapse_ok by blast
  have el: "elems (join_sep N) = N"
    using ok by (rule elems_join_sep)
  have st: "collapse (rooted p) [] N = N"
    unfolding N_def by (rule collapse_idem)
  show ?thesis
  proof (cases "rooted p")
    case True
    have c: "Clean p = sep # join_sep N"
      using False True by (simp add: Clean_def N_def)
    have "rooted (sep # join_sep N)" by (simp add: rooted_def)
    then show ?thesis
      using c el st True by (simp add: Clean_def elems_rooted)
  next
    case nr: False
    show ?thesis
    proof (cases "N = []")
      case True
      then have "Clean p = ''.''"
        using False nr by (simp add: Clean_def N_def)
      then show ?thesis by (simp add: Clean_def rooted_def elems_def sep_def)
    next
      case ne: False
      have h: "join_sep N \<noteq> [] \<and> hd (join_sep N) \<noteq> sep"
        using ne ok by (intro join_sep_head) auto
      have c: "Clean p = join_sep N"
        using False nr h by (simp add: Clean_def N_def)
      have "\<not> rooted (join_sep N)" using h by (simp add: rooted_def)
      then show ?thesis
        using c el st nr h by (simp add: Clean_def)
    qed
  qed
qed


subsection \<open>Opening twice\<close>

lemma split_sep_snoc: "split_sep (q @ [sep]) = split_sep q @ [[]]"
  by (induction q) (auto simp: split_sep_not_Nil split: list.splits)

lemma Clean_trailing_sep: "q \<noteq> [] \<Longrightarrow> Clean (q @ [sep]) = Clean q"
  by (simp add: Clean_def rooted_def elems_def split_sep_snoc hd_append)

lemma child_empty_name: "child \<lparr>defaults = d, closers = cl, path = Clean p\<rparr> [] = Clean p"
  by (simp add: child_def filepath_Join_def Clean_not_empty Clean_trailing_sep Clean_idem)

lemma resolve_files_update [simp]: "resolve (w\<lparr>files := fs\<rparr>) name = resolve w name"
  by (simp add: resolve_def)

text \<open>
  C6. Opening a handle on a path twice in sequence is idempotent: when the first
  \<open>OpenSpecific\<close> succeeds (the path is a valid one: it exists, or it could be
  created), the second one on the state the first has left succeeds too, returns the same
  handle, and leaves that state as it is: it creates nothing and changes no content.
\<close>

theorem OpenSpecific_twice:
  assumes "OpenSpecific p w = (Returns (Inr c), w1)"
  shows "OpenSpecific p w1 = (Returns (Inr c), w1)"
proof -
  define conf where "conf = \<lparr>defaults = Map.empty, closers = [], path = Clean p\<rparr>"
  have ch: "child conf [] = Clean p"
    unfolding conf_def by (rule child_empty_name)
  have o: "OpenSpecific p v =
             (case create conf v of (Some err, v') \<Rightarrow> (Returns (Inl err), v')
                                  | (None, v') \<Rightarrow> (Returns (Inr conf), v'))" for v
    unfolding conf_def by (simp add: OpenSpecific_def Let_def Clean_not_empty)
  from assms have c: "c = conf" and cr: "create conf w = (None, w1)"
    by (auto simp: o split: prod.splits option.splits)
  have pc: "path conf = Clean p"
    by (simp add: conf_def)
  obtain b e where ex: "Exists conf [] w = (b, e)"
    by (cases "Exists conf [] w")
  consider (there) "Exists conf [] w = (True, None)" "w1 = w"
    | (made) "os_Mkdir (Clean p) (ModeDir OR 511) w = (None, w1)"
    using cr ex pc by (cases b; cases e) (simp_all add: create_def)
  then have "create conf w1 = (None, w1)"
  proof cases
    case there
    then show ?thesis by (simp add: create_def)
  next
    case made
    then have "w1 = w\<lparr>files := (files w)(resolve w (Clean p) \<mapsto>
                      Directory (created_perm w (ModeDir OR 511)))\<rparr>"
      by (auto simp: os_Mkdir_def Let_def split: option.splits node.splits if_splits)
    then have "Exists conf [] w1 = (True, None)"
      by (simp add: Exists_def Stat_def os_Stat_def ch Clean_not_empty)
    then show ?thesis by (simp add: create_def)
  qed
  then show ?thesis by (simp add: o c)
qed

lemma OpenSpecific_fresh: "OpenSpecific ''/home/u/app'' home_os = (Returns (Inr app_conf), fresh_os)"
  by (simp add: OpenSpecific_def Clean_def create_def Exists_def Stat_def child_def
      filepath_Join_def rooted_def elems_def sep_def os_Stat_def os_Mkdir_def resolve_def
      home_os_def fresh_os_def app_conf_def Let_def missing_def is_file_def created_perm_def
      ModeDir_def ModePerm_def)

theorem OpenSpecific_twice_witness:
  "OpenSpecific ''/home/u/app'' home_os = (Returns (Inr app_conf), fresh_os) \<and>
   OpenSpecific ''/home/u/app'' fresh_os = (Returns (Inr app_conf), fresh_os)"
  using OpenSpecific_twice [OF OpenSpecific_fresh] OpenSpecific_fresh by simp

subsection \<open>A file that is present\<close>

lemma child_not_empty: "path c \<noteq> [] \<Longrightarrow> child c name \<noteq> []"
  by (simp add: child_def filepath_Join_def Clean_not_empty)

lemma Exists_False:
  "child c name \<noteq> [] \<Longrightarrow> Exists c name w = (False, None) \<Longrightarrow> file_at w c name = None"
  by (auto simp: Exists_def Stat_def os_Stat_def file_at_def split: option.splits if_splits)















lemma resolve_materialized [simp]: "resolve (materialized c name pm out w) n = resolve w n"
  by (simp add: resolve_def materialized_def)



subsection \<open>The first access to a file with a default\<close>


lemma key_conf_facts:
  "path key_conf \<noteq> []"
  "Exists key_conf ''sshkey.pub'' app_os = (False, None)"
  "defaults key_conf ''sshkey.pub'' = Some \<lparr>f = write_callback ''[SSHKEY]'', perm = 438\<rparr>"
  "files app_os (butlast (resolve app_os (child key_conf ''sshkey.pub''))) = Some (Directory 493)"
  "created_perm app_os 438 = 420"
  by (simp_all add: key_conf_def app_conf_def Exists_def Stat_def child_def filepath_Join_def
      Clean_def rooted_def elems_def sep_def os_Stat_def resolve_def app_os_def home_os_def
      missing_def is_file_def created_perm_def ModePerm_def)




subsection \<open>Writing a value and reading it back\<close>













subsection \<open>The file opened by the guard\<close>

lemma extends_refl [simp]: "extends w w"
  by (simp add: extends_def)

lemma extends_trans: "extends w w1 \<Longrightarrow> extends w1 w2 \<Longrightarrow> extends w w2"
  by (auto simp: extends_def)

lemma os_OpenFile_frame:
  assumes "os_OpenFile n fl pm w = (r, w')"
  shows "(\<forall>e. r = Inl e \<longrightarrow> w' = w) \<and>
         (\<forall>h. r = Inr h \<longrightarrow> h = next_handle w \<and> next_handle w' = Suc h \<and> is_open w' h \<and>
                (\<forall>x. x \<noteq> h \<longrightarrow> is_open w' x = is_open w x))"
  using assms
  by (auto simp: os_OpenFile_def new_file_def Let_def is_open_def
      split: if_splits option.splits node.splits)

lemma file_Write_frame:
  "next_handle (snd (file_Write h bs w)) = next_handle w \<and>
   is_open (snd (file_Write h bs w)) x = is_open w x"
  by (auto simp: file_Write_def is_open_def Let_def split: option.splits node.splits)

lemma io_ReadAll_frame:
  "next_handle (snd (io_ReadAll h w)) = next_handle w \<and>
   is_open (snd (io_ReadAll h w)) x = is_open w x"
  by (auto simp: io_ReadAll_def is_open_def split: option.splits node.splits)

lemma file_Close_frame:
  "next_handle (snd (file_Close h w)) = next_handle w \<and>
   (x \<noteq> h \<longrightarrow> is_open (snd (file_Close h w)) x = is_open w x)"
  by (auto simp: file_Close_def is_open_def split: option.splits)

lemma Encode_frame:
  "next_handle (snd (Encode enc h v w)) = next_handle w \<and>
   is_open (snd (Encode enc h v w)) x = is_open w x"
  using file_Write_frame [of h "fst (enc v)" w x]
  by (auto simp: Encode_def split: prod.splits option.splits)

lemma Decode_frame:
  "next_handle (snd (Decode dec h w)) = next_handle w \<and>
   is_open (snd (Decode dec h w)) x = is_open w x"
  using io_ReadAll_frame [of h w x]
  by (auto simp: Decode_def split: prod.splits option.splits)

lemma quiet_write_callback: "quiet (write_callback data)"
  using file_Write_frame
  by (auto simp: quiet_def write_callback_def split: prod.splits) (metis snd_conv)+


lemma OpenRaw_opens: "OpenRaw c name fl pm w = (r, w') \<Longrightarrow> opens w r w'"
  using os_OpenFile_frame [of "child c name" fl pm w r w']
  by (cases r) (auto simp: OpenRaw_def opens_def)

lemma OpenCreate_opens: "OpenCreate c name pm w = (r, w') \<Longrightarrow> opens w r w'"
  by (simp add: OpenCreate_def OpenRaw_opens)

lemma opens_extends: "opens w r w' \<Longrightarrow> extends w w'"
  by (cases r) (auto simp: opens_def extends_def)

lemma Println_frame [simp]:
  "next_handle (Println s w) = next_handle w" "is_open (Println s w) x = is_open w x"
  by (simp_all add: Println_def is_open_def)

lemma verifyExists_extends:
  assumes "quiet_defaults c" and "verifyExists c name w = (e, w1)"
  shows "extends w w1"
proof (cases "Exists c name w = (False, None) \<and> defaults c name \<noteq> None")
  case False
  then have "w1 = w"
    using assms(2)
    by (cases "Exists c name w"; cases "fst (Exists c name w)"; cases "snd (Exists c name w)";
        cases "defaults c name") (auto simp: verifyExists_def)
  then show ?thesis by simp
next
  case True
  then obtain d where d: "defaults c name = Some d" and ex: "Exists c name w = (False, None)"
    by auto
  have q: "quiet (f d)"
    using assms(1) d by (auto simp: quiet_defaults_def)
  obtain r w0 where oc: "OpenCreate c name (perm d) w = (r, w0)"
    by (cases "OpenCreate c name (perm d) w")
  have e0: "extends w w0"
    using OpenCreate_opens [OF oc] by (rule opens_extends)
  show ?thesis
  proof (cases r)
    case (Inl err)
    with assms(2) d ex oc have "w1 = Println (''err: '' @ Error err) w0"
      by (simp add: verifyExists_def)
    with e0 show ?thesis by (simp add: extends_def)
  next
    case (Inr wr)
    with assms(2) d ex oc have "w1 = snd (f d (path c) wr w0)"
      by (simp add: verifyExists_def)
    with e0 q show ?thesis by (simp add: extends_def quiet_def)
  qed
qed

lemma verifyExists_creates:
  assumes "Exists c name w = (False, None)" and "defaults c name = Some d"
    and "OpenCreate c name (perm d) w = (Inr h0, w0)" and "quiet (f d)"
    and "verifyExists c name w = (e, w1)"
  shows "h0 = next_handle w \<and> next_handle w1 = Suc h0 \<and> is_open w1 h0"
proof -
  have "w1 = snd (f d (path c) h0 w0)"
    using assms(1,2,3,5) by (simp add: verifyExists_def)
  with OpenCreate_opens [OF assms(3)] assms(4) show ?thesis
    by (auto simp: opens_def quiet_def)
qed

lemma OpenRead_opens:
  assumes "OpenRead c name w = (r, w2)"
  shows "\<exists>e w1. verifyExists c name w = (e, w1) \<and> opens w1 r w2"
proof -
  obtain e w1 where ve: "verifyExists c name w = (e, w1)"
    by (cases "verifyExists c name w")
  show ?thesis
  proof (cases e)
    case None
    with assms ve have "OpenRaw c name {O_RDONLY} 0 w1 = (r, w2)"
      by (simp add: OpenRead_def)
    then show ?thesis using ve OpenRaw_opens by blast
  next
    case (Some err)
    with assms ve have "r = Inl err" "w2 = w1"
      by (simp_all add: OpenRead_def)
    then show ?thesis using ve by (auto simp: opens_def)
  qed
qed

lemma OpenWrite_opens:
  assumes "OpenWrite c name w = (r, w2)"
  shows "\<exists>e w1. verifyExists c name w = (e, w1) \<and> opens w1 r w2"
proof -
  obtain e w1 where ve: "verifyExists c name w = (e, w1)"
    by (cases "verifyExists c name w")
  show ?thesis
  proof (cases e)
    case None
    with assms ve have "OpenRaw c name {O_WRONLY, O_TRUNC} 0 w1 = (r, w2)"
      by (simp add: OpenWrite_def)
    then show ?thesis using ve OpenRaw_opens by blast
  next
    case (Some err)
    with assms ve have "r = Inl err" "w2 = w1"
      by (simp_all add: OpenWrite_def)
    then show ?thesis using ve by (auto simp: opens_def)
  qed
qed

lemma read_call_tail:
  assumes "OpenRead c name w = (r, w2)"
  shows "tail_of r w2 c (a = AOpenReadAuto) (snd (read_call a c name w))"
  using assms
  by (cases a; cases r)
    (auto simp: tail_of_def read_defs addCloser_def io_ReadAll_frame file_Close_frame Decode_frame
      case_prod_unfold split: option.splits)

lemma write_call_tail:
  assumes "OpenWrite c name w = (r, w2)"
  shows "tail_of r w2 c (a = AOpenWriteAuto) (snd (write_call a c name w))"
  using assms
  by (cases a; cases r)
    (auto simp: tail_of_def write_defs addCloser_def file_Write_frame file_Close_frame Encode_frame
      case_prod_unfold split: option.splits)

lemma create_call_tail:
  assumes "OpenCreate c name pm w = (r, w2)"
  shows "tail_of r w2 c (a = AOpenCreateAuto) (snd (create_call a c name pm w))"
  using assms
  by (cases a; cases r)
    (auto simp: tail_of_def create_defs addCloser_def file_Write_frame file_Close_frame Encode_frame
      case_prod_unfold split: option.splits)


lemma accessor_keeps_after_guard:
  assumes "verifyExists c name w = (e0, w1)"
    and "is_open w1 h" and "h < next_handle w1" and "h \<notin> set (closers c)"
    and "\<forall>x \<in> set (closers c). x < next_handle w1" and "quiet_defaults c"
  shows "untracked_open h (snd (read_call a c name w))"
    and "untracked_open h (snd (write_call b c name w))"
proof -
  obtain r w2 where o: "OpenRead c name w = (r, w2)"
    by (cases "OpenRead c name w")
  from OpenRead_opens [OF o] assms(1) have "opens w1 r w2" by auto
  with read_call_tail [OF o, of a] assms(2-)
  show "untracked_open h (snd (read_call a c name w))"
    by (cases r) (auto simp: untracked_open_def tail_of_def opens_def quiet_defaults_def
        intro: less_SucI)
next
  obtain r w2 where o: "OpenWrite c name w = (r, w2)"
    by (cases "OpenWrite c name w")
  from OpenWrite_opens [OF o] assms(1) have "opens w1 r w2" by auto
  with write_call_tail [OF o, of b] assms(2-)
  show "untracked_open h (snd (write_call b c name w))"
    by (cases r) (auto simp: untracked_open_def tail_of_def opens_def quiet_defaults_def
        intro: less_SucI)
qed

lemma accessor_keeps:
  assumes "untracked_open h (c, w)"
  shows "untracked_open h (snd (read_call a c name w))"
    and "untracked_open h (snd (write_call b c name w))"
proof -
  obtain e0 w1 where ve: "verifyExists c name w = (e0, w1)"
    by (cases "verifyExists c name w")
  have q: "quiet_defaults c"
    using assms by (simp add: untracked_open_def)
  have "extends w w1"
    using q ve by (rule verifyExists_extends)
  with assms have p: "is_open w1 h" "h < next_handle w1" "h \<notin> set (closers c)"
    "\<forall>x \<in> set (closers c). x < next_handle w1"
    by (auto simp: untracked_open_def extends_def)
  show "untracked_open h (snd (read_call a c name w))"
    using ve p q by (rule accessor_keeps_after_guard(1))
  show "untracked_open h (snd (write_call b c name w))"
    using ve p q by (rule accessor_keeps_after_guard(2))
qed

lemma create_call_keeps:
  assumes "untracked_open h (c, w)"
  shows "untracked_open h (snd (create_call a c name pm w))"
proof -
  obtain r w2 where o: "OpenCreate c name pm w = (r, w2)"
    by (cases "OpenCreate c name pm w")
  from create_call_tail [OF o, of a] OpenCreate_opens [OF o] assms
  show ?thesis
    by (cases r) (auto simp: untracked_open_def tail_of_def opens_def quiet_defaults_def
        intro: less_SucI)
qed

lemma close_each_frame:
  "next_handle (snd (close_each hs errs w)) = next_handle w \<and>
   (h \<notin> set hs \<longrightarrow> is_open (snd (close_each hs errs w)) h = is_open w h)"
proof (induction hs arbitrary: errs w)
  case Nil
  then show ?case by simp
next
  case (Cons a hs)
  obtain e w' where fc: "file_Close a w = (e, w')"
    by (cases "file_Close a w")
  with file_Close_frame [of a w h]
  have "next_handle w' = next_handle w" "h \<noteq> a \<longrightarrow> is_open w' h = is_open w h"
    by simp_all
  with Cons.IH [of _ w'] fc show ?case
    by (cases e) auto
qed

lemma Close_keeps: "untracked_open h (c, w) \<Longrightarrow> untracked_open h (c, snd (Close c w))"
  using close_each_frame [of "closers c" "[]" w h]
  by (simp add: untracked_open_def Close_def)

lemma RemoveAll_frame [simp]:
  "next_handle (snd (os_RemoveAll p w)) = next_handle w"
  "is_open (snd (os_RemoveAll p w)) h = is_open w h"
  by (simp_all add: os_RemoveAll_def is_open_def)

lemma Delete_keeps:
  "untracked_open h (c, w) \<Longrightarrow> untracked_open h (c, snd (Delete c w))"
  "untracked_open h (c, w) \<Longrightarrow> untracked_open h (c, snd (DeleteFile c name w))"
  by (simp_all add: untracked_open_def Delete_def DeleteFile_def)

lemma DefaultFunc_keeps:
  assumes "untracked_open h (c, w)" and "quiet g" and "DefaultFunc c name pm g = Returns c'"
  shows "untracked_open h (c', w)"
  using assms
  by (auto simp: untracked_open_def DefaultFunc_def quiet_defaults_def split: if_splits)

lemma api_call_keeps:
  assumes "quiet_call x" and "untracked_open h s" and "api_call x s = Some s'"
  shows "untracked_open h s'"
proof -
  obtain c w where s: "s = (c, w)" by (cases s)
  have reg: "registered (DefaultFunc c name pm g) w = Some s' \<Longrightarrow> quiet g \<Longrightarrow> untracked_open h s'"
    for name pm g
    using DefaultFunc_keeps [of h c w g name pm] assms(2) s
    by (cases "DefaultFunc c name pm g") auto
  show ?thesis
  proof (cases x)
    case (ReadCall a name)
    with assms s accessor_keeps(1) [of h c w a name] show ?thesis by auto
  next
    case (WriteCall a name)
    with assms s accessor_keeps(2) [of h c w a name] show ?thesis by auto
  next
    case (CreateCall a name pm)
    with assms s create_call_keeps [of h c w a name pm] show ?thesis by auto
  next
    case CloseCall
    with assms s Close_keeps [of h c w] show ?thesis by auto
  next
    case DeleteCall
    with assms s Delete_keeps(1) [of h c w] show ?thesis by auto
  next
    case (DeleteFileCall name)
    with assms s Delete_keeps(2) [of h c w name] show ?thesis by auto
  next
    case (DefaultFuncCall name pm g)
    with assms s reg [of name pm g] show ?thesis by auto
  next
    case (DefaultCall name pm data)
    with assms s reg [of name pm "write_callback data"] quiet_write_callback [of data]
    show ?thesis by (auto simp: Default_def)
  next
    case (DefaultStringCall name pm str)
    with assms s reg [of name pm "write_callback str"] quiet_write_callback [of str]
    show ?thesis by (auto simp: Default_def DefaultString_def)
  qed
qed

lemma run_keeps:
  "\<forall>x \<in> set calls. quiet_call x \<Longrightarrow> untracked_open h s \<Longrightarrow> untracked_open h (run calls s)"
proof (induction calls arbitrary: s)
  case Nil
  then show ?case by simp
next
  case (Cons x xs)
  show ?case
  proof (cases "api_call x s")
    case None
    with Cons.prems show ?thesis by simp
  next
    case (Some s')
    with Cons.prems have "untracked_open h s'"
      using api_call_keeps [of x h s s'] by simp
    with Cons.prems Cons.IH [of s'] Some show ?thesis by simp
  qed
qed


text \<open>
  C10. When the guard \<open>verifyExists\<close> creates the file of a registered default (the file
  is absent, a default is registered, the exclusive open succeeds), the file object of that
  open is not closed and not tracked: after the read or write accessor that went through
  the guard it is open and is not in the tracked list, and it stays so through every later
  sequence of calls of the package, the bulk close included (callbacks being quiet, the
  tracked files being ones handed out before). And a call of a read or write accessor
  leaves the tracked list as it was, except a successful \<open>OpenReadAuto\<close> or
  \<open>OpenWriteAuto\<close>, which appends the file it returns.
\<close>

theorem default_file_neither_closed_nor_tracked:
  assumes "Exists c name w = (False, None)" and "defaults c name = Some d"
    and "OpenCreate c name (perm d) w = (Inr h0, w0)"
    and "quiet_defaults c" and "\<forall>x \<in> set (closers c). x < next_handle w"
    and "\<forall>x \<in> set calls. quiet_call x"
  shows "(\<forall>a :: 'v read_accessor.
            is_open (snd (snd (read_call a c name w))) h0 \<and>
            h0 \<notin> set (closers (fst (snd (read_call a c name w)))) \<and>
            is_open (snd (run (calls :: 'v call list) (snd (read_call a c name w)))) h0 \<and>
            h0 \<notin> set (closers (fst (run calls (snd (read_call a c name w)))))) \<and>
         (\<forall>a :: 'v write_accessor.
            is_open (snd (snd (write_call a c name w))) h0 \<and>
            h0 \<notin> set (closers (fst (snd (write_call a c name w)))) \<and>
            is_open (snd (run calls (snd (write_call a c name w)))) h0 \<and>
            h0 \<notin> set (closers (fst (run calls (snd (write_call a c name w)))))) \<and>
         (\<forall>a :: 'v read_accessor.
            closers (fst (snd (read_call a c name w))) = closers c \<or>
            (a = AOpenReadAuto \<and>
             (\<exists>h. fst (OpenRead c name w) = Inr h \<and>
                  closers (fst (snd (read_call a c name w))) = closers c @ [h]))) \<and>
         (\<forall>a :: 'v write_accessor.
            closers (fst (snd (write_call a c name w))) = closers c \<or>
            (a = AOpenWriteAuto \<and>
             (\<exists>h. fst (OpenWrite c name w) = Inr h \<and>
                  closers (fst (snd (write_call a c name w))) = closers c @ [h])))"
proof -
  obtain e w1 where ve: "verifyExists c name w = (e, w1)"
    by (cases "verifyExists c name w")
  have q: "quiet (f d)"
    using assms(2,4) by (auto simp: quiet_defaults_def)
  from verifyExists_creates [OF assms(1,2,3) q ve]
  have g: "h0 = next_handle w" "next_handle w1 = Suc h0" "is_open w1 h0"
    by blast+
  have fresh: "h0 < next_handle w1" "h0 \<notin> set (closers c)"
    "\<forall>x \<in> set (closers c). x < next_handle w1"
    using g assms(5) by auto
  have r: "untracked_open h0 (snd (read_call a c name w))" for a :: "'v read_accessor"
    using ve g(3) fresh assms(4) by (rule accessor_keeps_after_guard(1))
  have wr: "untracked_open h0 (snd (write_call a c name w))" for a :: "'v write_accessor"
    using ve g(3) fresh assms(4) by (rule accessor_keeps_after_guard(2))
  have rr: "untracked_open h0 (run calls (snd (read_call a c name w)))" for a :: "'v read_accessor"
    using assms(6) r by (rule run_keeps)
  have wrr: "untracked_open h0 (run calls (snd (write_call a c name w)))"
    for a :: "'v write_accessor"
    using assms(6) wr by (rule run_keeps)
  have gr: "closers (fst (snd (read_call a c name w))) = closers c \<or>
            (a = AOpenReadAuto \<and>
             (\<exists>h. fst (OpenRead c name w) = Inr h \<and>
                  closers (fst (snd (read_call a c name w))) = closers c @ [h]))"
    for a :: "'v read_accessor"
    using read_call_tail [of c name w "fst (OpenRead c name w)" "snd (OpenRead c name w)" a]
    by (auto simp: tail_of_def)
  have gw: "closers (fst (snd (write_call a c name w))) = closers c \<or>
            (a = AOpenWriteAuto \<and>
             (\<exists>h. fst (OpenWrite c name w) = Inr h \<and>
                  closers (fst (snd (write_call a c name w))) = closers c @ [h]))"
    for a :: "'v write_accessor"
    using write_call_tail [of c name w "fst (OpenWrite c name w)" "snd (OpenWrite c name w)" a]
    by (auto simp: tail_of_def)
  show ?thesis
    using r wr rr wrr gr gw by (simp add: untracked_open_def)
qed

lemma key_conf_create:
  "OpenCreate key_conf ''sshkey.pub'' (perm \<lparr>f = write_callback ''[SSHKEY]'', perm = 438\<rparr>) app_os
     = (Inr 0, snd (OpenCreate key_conf ''sshkey.pub'' 438 app_os))"
proof -
  have ch: "child key_conf ''sshkey.pub'' \<noteq> []"
    using key_conf_facts(1) by (rule child_not_empty)
  have ab: "files app_os (resolve app_os (child key_conf ''sshkey.pub'')) = None"
    using Exists_False [OF ch key_conf_facts(2)] by (simp add: file_at_def)
  have "next_handle app_os = 0"
    by (simp add: app_os_def home_os_def)
  then show ?thesis
    using ch ab key_conf_facts(4)
    by (simp add: OpenCreate_def OpenRaw_def os_OpenFile_def new_file_def Let_def)
qed

theorem default_file_neither_closed_nor_tracked_witness:
  "Exists key_conf ''sshkey.pub'' app_os = (False, None) \<and>
   fst (OpenCreate key_conf ''sshkey.pub'' 438 app_os) = Inr 0 \<and>
   quiet_defaults key_conf \<and>
   is_open (snd (snd (read_call (ARead :: nat read_accessor) key_conf ''sshkey.pub'' app_os))) 0 \<and>
   0 \<notin> set (closers (fst (snd (read_call (AOpenReadAuto :: nat read_accessor) key_conf
      ''sshkey.pub'' app_os)))) \<and>
   is_open (snd (run [CloseCall, DeleteCall :: nat call]
      (snd (write_call (AOpenWriteAuto :: nat write_accessor) key_conf ''sshkey.pub'' app_os)))) 0"
proof -
  have q: "quiet_defaults key_conf"
    using quiet_write_callback by (auto simp: quiet_defaults_def key_conf_def split: if_splits)
  have cl: "\<forall>x \<in> set (closers key_conf). x < next_handle app_os"
    by (simp add: key_conf_def app_conf_def)
  have qc: "\<forall>x \<in> set [CloseCall, DeleteCall :: nat call]. quiet_call x"
    by simp
  note t = default_file_neither_closed_nor_tracked [where 'v = nat,
      OF key_conf_facts(2,3) key_conf_create q cl qc]
  from t have a: "is_open (snd (snd (read_call (a :: nat read_accessor) key_conf ''sshkey.pub''
      app_os))) 0 \<and> 0 \<notin> set (closers (fst (snd (read_call a key_conf ''sshkey.pub'' app_os))))"
    for a
    by blast
  from t have b: "is_open (snd (run [CloseCall, DeleteCall :: nat call]
      (snd (write_call (a :: nat write_accessor) key_conf ''sshkey.pub'' app_os)))) 0" for a
    by blast
  have oc: "fst (OpenCreate key_conf ''sshkey.pub'' 438 app_os) = Inr 0"
    by (subst key_conf_create [simplified]) simp
  show ?thesis
    using a [of ARead] a [of AOpenReadAuto] b [of AOpenWriteAuto] key_conf_facts(2) oc q
    by (simp del: read_call.simps write_call.simps run.simps)
qed

subsection \<open>Joining paths\<close>

text \<open>
  C9. For every base path and every slice of \<open>Path\<close> values (a valid slice: the length
  within the capacity, no capacity at the nil address), \<open>JoinP\<close>, which reads the
  array of the slice as strings, returns, without a panic of \<^verbatim>\<open>unsafe.Slice\<close>, the path
  that \<open>Join\<close> returns on the strings of the elements converted one by one.
\<close>

theorem JoinP_is_Join_of_converted:
  assumes "valid_slice elem"
  shows "JoinP m p elem = Returns (JoinP_by_conversion m p elem)"
proof (cases elem)
  case (PathSlice b n c)
  with assms show ?thesis
    by (auto simp: JoinP_def JoinP_by_conversion_def unsafe_Slice_def Let_def load_Path_def
        sizeof_Path_def comp_def)
qed

theorem JoinP_is_Join_of_converted_witness:
  "valid_slice (PathSlice 64 2 2) \<and>
   JoinP two_paths (Path ''/x'') (PathSlice 64 2 2) = Returns (Path ''/x/a/bc'') \<and>
   JoinP_by_conversion two_paths (Path ''/x'') (PathSlice 64 2 2) = Path ''/x/a/bc''"
proof -
  have v: "valid_slice (PathSlice 64 2 2)" by simp
  have "paths_of two_paths (PathSlice 64 2 2) = [Path ''a'', Path ''bc'']"
    by code_simp
  then have "JoinP_by_conversion two_paths (Path ''/x'') (PathSlice 64 2 2) = Path ''/x/a/bc''"
    by (simp add: JoinP_by_conversion_def Join_def filepath_Join_def Clean_def rooted_def
        elems_def sep_def)
  with JoinP_is_Join_of_converted [OF v, of two_paths "Path ''/x''"] v show ?thesis by simp
qed

subsection \<open>The tracked files are distinct\<close>

text \<open>
  The tracked list of a handle that \<open>OpenSpecific\<close> has made holds distinct file
  objects, whatever calls of the package follow: each \<open>Auto\<close> open appends the file
  object that it has just been handed.
\<close>

lemma tail_keeps_fresh:
  assumes "tracked_fresh (c, w)" and "extends w w1" and "opens w1 r w2" and "tail_of r w2 c auto s"
  shows "tracked_fresh s"
proof -
  have le: "next_handle w \<le> next_handle w1" "next_handle w1 \<le> next_handle w2"
    using assms(2) opens_extends [OF assms(3)] by (simp_all add: extends_def)
  have old: "\<forall>x \<in> set (closers c). x < next_handle w" "distinct (closers c)" "quiet_defaults c"
    using assms(1) by (simp_all add: tracked_fresh_def)
  have nh: "next_handle (snd s) = next_handle w2" and df: "defaults (fst s) = defaults c"
    using assms(4) by (simp_all add: tail_of_def)
  have q: "quiet_defaults (fst s)"
    using old(3) df by (simp add: quiet_defaults_def)
  consider (same) "closers (fst s) = closers c"
    | (more) h where "r = Inr h" "closers (fst s) = closers c @ [h]"
    using assms(4) by (auto simp: tail_of_def)
  then show ?thesis
  proof cases
    case same
    with old le nh q show ?thesis
      by (auto simp: tracked_fresh_def)
  next
    case more
    with assms(3) have h: "h = next_handle w1" "next_handle w2 = Suc h"
      by (simp_all add: opens_def)
    with old(1) le have "h \<notin> set (closers c)" by auto
    with more old le nh q h show ?thesis
      by (auto simp: tracked_fresh_def)
  qed
qed

lemma accessor_keeps_fresh:
  assumes "tracked_fresh (c, w)"
  shows "tracked_fresh (snd (read_call a c name w))"
    and "tracked_fresh (snd (write_call b c name w))"
    and "tracked_fresh (snd (create_call d c name pm w))"
proof -
  have q: "quiet_defaults c"
    using assms by (simp add: tracked_fresh_def)
  obtain r w2 where o: "OpenRead c name w = (r, w2)"
    by (cases "OpenRead c name w")
  from OpenRead_opens [OF o] obtain e w1 where
    ve: "verifyExists c name w = (e, w1)" and op: "opens w1 r w2"
    by blast
  show "tracked_fresh (snd (read_call a c name w))"
    using assms verifyExists_extends [OF q ve] op read_call_tail [OF o, of a]
    by (rule tail_keeps_fresh)
next
  have q: "quiet_defaults c"
    using assms by (simp add: tracked_fresh_def)
  obtain r w2 where o: "OpenWrite c name w = (r, w2)"
    by (cases "OpenWrite c name w")
  from OpenWrite_opens [OF o] obtain e w1 where
    ve: "verifyExists c name w = (e, w1)" and op: "opens w1 r w2"
    by blast
  show "tracked_fresh (snd (write_call b c name w))"
    using assms verifyExists_extends [OF q ve] op write_call_tail [OF o, of b]
    by (rule tail_keeps_fresh)
next
  obtain r w2 where o: "OpenCreate c name pm w = (r, w2)"
    by (cases "OpenCreate c name pm w")
  show "tracked_fresh (snd (create_call d c name pm w))"
    using assms extends_refl OpenCreate_opens [OF o] create_call_tail [OF o, of d]
    by (rule tail_keeps_fresh)
qed

lemma api_call_keeps_fresh:
  assumes "quiet_call x" and "tracked_fresh s" and "api_call x s = Some s'"
  shows "tracked_fresh s'"
proof -
  obtain c w where s: "s = (c, w)" by (cases s)
  have reg: "registered (DefaultFunc c name pm g) w = Some s' \<Longrightarrow> quiet g \<Longrightarrow> tracked_fresh s'"
    for name pm g
    using assms(2) s
    by (cases "DefaultFunc c name pm g")
      (auto simp: tracked_fresh_def DefaultFunc_def quiet_defaults_def split: if_splits)
  have cl: "next_handle (snd (Close c w)) = next_handle w"
    using close_each_frame [of "closers c" "[]" w 0] by (simp add: Close_def)
  show ?thesis
  proof (cases x)
    case (ReadCall a name)
    with assms s accessor_keeps_fresh(1) [of c w a name] show ?thesis by auto
  next
    case (WriteCall a name)
    with assms s accessor_keeps_fresh(2) [of c w a name] show ?thesis by auto
  next
    case (CreateCall a name pm)
    with assms s accessor_keeps_fresh(3) [of c w a name pm] show ?thesis by auto
  next
    case CloseCall
    with assms s cl show ?thesis by (auto simp: tracked_fresh_def)
  next
    case DeleteCall
    with assms s show ?thesis by (auto simp: tracked_fresh_def Delete_def)
  next
    case (DeleteFileCall name)
    with assms s show ?thesis by (auto simp: tracked_fresh_def DeleteFile_def)
  next
    case (DefaultFuncCall name pm g)
    with assms s reg [of name pm g] show ?thesis by auto
  next
    case (DefaultCall name pm data)
    with assms s reg [of name pm "write_callback data"] quiet_write_callback [of data]
    show ?thesis by (auto simp: Default_def)
  next
    case (DefaultStringCall name pm str)
    with assms s reg [of name pm "write_callback str"] quiet_write_callback [of str]
    show ?thesis by (auto simp: Default_def DefaultString_def)
  qed
qed

lemma run_keeps_fresh:
  "\<forall>x \<in> set calls. quiet_call x \<Longrightarrow> tracked_fresh s \<Longrightarrow> tracked_fresh (run calls s)"
proof (induction calls arbitrary: s)
  case Nil
  then show ?case by simp
next
  case (Cons x xs)
  show ?case
  proof (cases "api_call x s")
    case None
    with Cons.prems show ?thesis by simp
  next
    case (Some s')
    with Cons.prems have "tracked_fresh s'"
      using api_call_keeps_fresh [of x s s'] by simp
    with Cons.prems Cons.IH [of s'] Some show ?thesis by simp
  qed
qed

lemma tracked_files_distinct:
  assumes "OpenSpecific p w = (Returns (Inr c), w')" and "\<forall>x \<in> set calls. quiet_call x"
  shows "distinct (closers (fst (run calls (c, w'))))"
proof -
  have "closers c = [] \<and> defaults c = Map.empty"
    using assms(1)
    by (auto simp: OpenSpecific_def Let_def split: if_splits prod.splits option.splits)
  then have "tracked_fresh (c, w')"
    by (simp add: tracked_fresh_def quiet_defaults_def)
  with assms(2) have "tracked_fresh (run calls (c, w'))"
    by (rule run_keeps_fresh)
  then show ?thesis by (simp add: tracked_fresh_def)
qed

end
